theory Spec2Isabelle
  imports Complex_Main
begin

section \<open>The selection element (src/src/SelectionElement.js)\<close>

text \<open>
  \<^verbatim>\<open>SelectionElement\<close> is a custom element whose child elements act as selectable
  options. A child is selected exactly when it carries the attribute
  \<^verbatim>\<open>data-selected\<close>. The class mutates the DOM through object references, so the
  model is an explicit store: elements are addresses (\<open>node\<close>), and the store maps each
  address to its parent element, its attributes and its bounding rectangle. The host
  element (\<^verbatim>\<open>this\<close>) is one address of the store, \<^verbatim>\<open>this.children\<close> is the list of
  its child elements in tree order.
\<close>

subsection \<open>Rectangles\<close>

text \<open>
  Coordinates are JavaScript numbers, that is IEEE 754 doubles. The finite doubles are
  real numbers, and comparing them is comparing reals; adding and subtracting them
  rounds. The addition and the subtraction of numbers are parameters of the model
  (\<open>num_add\<close> for \<^verbatim>\<open>+\<close> and \<^verbatim>\<open>+=\<close>, \<open>num_sub\<close> for \<^verbatim>\<open>-\<close> and \<^verbatim>\<open>-=\<close>):
  what is proved for all of them holds for the arithmetic of doubles.
\<close>

record number_ops =
  num_add :: "real \<Rightarrow> real \<Rightarrow> real"
  num_sub :: "real \<Rightarrow> real \<Rightarrow> real"

text \<open>
  A \<^verbatim>\<open>DOMRect\<close> stores \<open>x\<close>, \<open>y\<close>, \<open>width\<close> and \<open>height\<close>; its edges
  \<open>left\<close>, \<open>right\<close>, \<open>top\<close> and \<open>bottom\<close> are computed from them, with the
  addition of numbers, as the DOM geometry interface defines them.
\<close>

record DOMRect =
  rect_x :: real
  rect_y :: real
  rect_width :: real
  rect_height :: real

definition rect_left :: "number_ops \<Rightarrow> DOMRect \<Rightarrow> real" where
  "rect_left ar r = min (rect_x r) (num_add ar (rect_x r) (rect_width r))"

definition rect_right :: "number_ops \<Rightarrow> DOMRect \<Rightarrow> real" where
  "rect_right ar r = max (rect_x r) (num_add ar (rect_x r) (rect_width r))"

definition rect_top :: "number_ops \<Rightarrow> DOMRect \<Rightarrow> real" where
  "rect_top ar r = min (rect_y r) (num_add ar (rect_y r) (rect_height r))"

definition rect_bottom :: "number_ops \<Rightarrow> DOMRect \<Rightarrow> real" where
  "rect_bottom ar r = max (rect_y r) (num_add ar (rect_y r) (rect_height r))"

text \<open>\<^verbatim>\<open>DOMRect.fromRect(other)\<close>: a fresh rectangle with the four stored fields of the other.\<close>

definition fromRect :: "DOMRect \<Rightarrow> DOMRect" where
  "fromRect other =
     \<lparr>rect_x = rect_x other, rect_y = rect_y other,
      rect_width = rect_width other, rect_height = rect_height other\<rparr>"

text \<open>\<^verbatim>\<open>#rectContains(a, b)\<close>: \<open>a\<close> is the outer rectangle.\<close>

definition rectContains :: "number_ops \<Rightarrow> DOMRect \<Rightarrow> DOMRect \<Rightarrow> bool" where
  "rectContains ar a b \<longleftrightarrow>
     rect_left ar b \<ge> rect_left ar a \<and>
     rect_right ar b \<le> rect_right ar a \<and>
     rect_top ar b \<ge> rect_top ar a \<and>
     rect_bottom ar b \<le> rect_bottom ar a"

subsection \<open>The store\<close>

type_synonym node = nat

text \<open>
  What a handler does besides changing attributes is recorded, in order, in the field
  \<open>effects\<close>: \<^verbatim>\<open>event.preventDefault()\<close>, \<^verbatim>\<open>element.scrollIntoView(...)\<close> and
  \<^verbatim>\<open>this.dispatchEvent(new Event(type, ...))\<close>.
\<close>

datatype effect = PreventDefault | ScrollIntoView node | DispatchEvent string

record control =
  host :: node
  children :: "node list"
  parentElement :: "node \<Rightarrow> node option"
  attributes :: "node \<Rightarrow> string \<rightharpoonup> string"
  boundingClientRect :: "node \<Rightarrow> DOMRect"
  allowMultipeSelections :: bool
  effects :: "effect list"

text \<open>
  The shape every DOM tree has: the children of the host are distinct elements, none of
  them is the host, and the parent element of each is the host.
\<close>

definition wf_dom :: "control \<Rightarrow> bool" where
  "wf_dom st \<longleftrightarrow>
     distinct (children st) \<and>
     host st \<notin> set (children st) \<and>
     list_all (\<lambda>c. parentElement st c = Some (host st)) (children st)"

datatype error = TypeError

subsection \<open>The selection marker\<close>

definition selectedAttributeName :: string where
  "selectedAttributeName = ''data-selected''"

text \<open>\<^verbatim>\<open>get length\<close>\<close>

definition length_of :: "control \<Rightarrow> int" where
  "length_of st = int (length (children st))"

text \<open>\<^verbatim>\<open>#isSelected(element)\<close>: \<^verbatim>\<open>element.hasAttribute(name)\<close>\<close>

definition isSelected :: "control \<Rightarrow> node \<Rightarrow> bool" where
  "isSelected st element \<longleftrightarrow> attributes st element selectedAttributeName \<noteq> None"

text \<open>\<^verbatim>\<open>#removeFromSelection(element)\<close>: \<^verbatim>\<open>element.removeAttribute(name)\<close>\<close>

definition removeFromSelection :: "control \<Rightarrow> node \<Rightarrow> control" where
  "removeFromSelection st element =
     st\<lparr>attributes := (attributes st)
          (element := (attributes st element)(selectedAttributeName := None))\<rparr>"

text \<open>\<^verbatim>\<open>#addToSelection(element)\<close>: \<^verbatim>\<open>element.setAttribute(name, '')\<close>\<close>

definition addToSelection :: "control \<Rightarrow> node \<Rightarrow> control" where
  "addToSelection st element =
     st\<lparr>attributes := (attributes st)
          (element := (attributes st element)(selectedAttributeName \<mapsto> ''''))\<rparr>"

text \<open>\<^verbatim>\<open>get selectedChildren\<close>: \<^verbatim>\<open>[...this.children].filter(child => this.#isSelected(child))\<close>\<close>

definition selectedChildren :: "control \<Rightarrow> node list" where
  "selectedChildren st = filter (isSelected st) (children st)"

text \<open>
  \<^verbatim>\<open>#clearSelection()\<close>: \<^verbatim>\<open>forEach\<close> over the array \<^verbatim>\<open>selectedChildren\<close> returned, a
  snapshot taken before the first removal.
\<close>

definition clearSelection :: "control \<Rightarrow> control" where
  "clearSelection st = foldl removeFromSelection st (selectedChildren st)"

text \<open>
  \<^verbatim>\<open>get selectedIndex\<close>: the loop
  \<^verbatim>\<open>for (let index = 0; index < children.length; index++)\<close>, from a given \<open>index\<close>.
\<close>

function selectedIndex_loop :: "control \<Rightarrow> nat \<Rightarrow> int" where
  "selectedIndex_loop st index =
     (if index < length (children st) then
        (if isSelected st (children st ! index) then int index
         else selectedIndex_loop st (Suc index))
      else -1)"
  by pat_completeness auto
termination
  by (relation "measure (\<lambda>(st, index). length (children st) - index)") auto

declare selectedIndex_loop.simps [simp del]

definition selectedIndex :: "control \<Rightarrow> int" where
  "selectedIndex st = selectedIndex_loop st 0"

text \<open>
  \<^verbatim>\<open>set selectedIndex(value)\<close>, for an integral \<^verbatim>\<open>Number\<close> (the documented type of the
  property). The read \<^verbatim>\<open>children[value]\<close> is guarded by the range test.
\<close>

definition set_selectedIndex :: "control \<Rightarrow> int \<Rightarrow> control" where
  "set_selectedIndex st v =
     (let st1 = clearSelection st in
      if v \<ge> 0 \<and> v < int (length (children st1))
      then addToSelection st1 (children st1 ! nat v)
      else st1)"

text \<open>\<^verbatim>\<open>get selectedChild\<close>: \<open>None\<close> is \<^verbatim>\<open>null\<close>.\<close>

definition selectedChild :: "control \<Rightarrow> node option" where
  "selectedChild st =
     (let sel = selectedIndex st in
      if sel > -1 then Some (children st ! nat sel) else None)"

text \<open>
  \<^verbatim>\<open>set selectedChild(element)\<close>: the value assigned is \<^verbatim>\<open>null\<close> (\<open>None\<close>) or a
  reference to an element. The loop compares references
  (\<^verbatim>\<open>children[index] === element\<close>) and stops at the first match.
\<close>

function set_selectedChild_loop :: "control \<Rightarrow> node option \<Rightarrow> nat \<Rightarrow> control" where
  "set_selectedChild_loop st element index =
     (if index < length (children st) then
        (if Some (children st ! index) = element
         then addToSelection st (children st ! index)
         else set_selectedChild_loop st element (Suc index))
      else st)"
  by pat_completeness auto
termination
  by (relation "measure (\<lambda>(st, element, index). length (children st) - index)") auto

declare set_selectedChild_loop.simps [simp del]

definition set_selectedChild :: "control \<Rightarrow> node option \<Rightarrow> control" where
  "set_selectedChild st element = set_selectedChild_loop (clearSelection st) element 0"

text \<open>
  \<^verbatim>\<open>attributeChangedCallback(attr, oldValue, newValue)\<close>: an absent attribute value is
  \<^verbatim>\<open>null\<close> (\<open>None\<close>).
\<close>

definition attributeChangedCallback ::
    "control \<Rightarrow> string \<Rightarrow> string option \<Rightarrow> string option \<Rightarrow> control" where
  "attributeChangedCallback st attr oldValue newValue =
     (if attr = ''multiple'' then
        (let st1 =
           (if newValue = None then
              (let sel = selectedIndex st in
               if sel > -1 then
                 (let st2 = clearSelection st
                  in addToSelection st2 (children st2 ! nat sel))
               else st)
            else st)
         in st1\<lparr>allowMultipeSelections := (newValue \<noteq> None)\<rparr>)
      else st)"

text \<open>
  \<^verbatim>\<open>#scrollSelectionIntoView()\<close>. The scroll is requested with
  \<^verbatim>\<open>behavior: "smooth"\<close>; the request is recorded, the layout of the store is left as
  it is.
\<close>

definition scrollSelectionIntoView :: "control \<Rightarrow> control" where
  "scrollSelectionIntoView st =
     (case selectedChild st of
        None \<Rightarrow> st
      | Some c \<Rightarrow> st\<lparr>effects := effects st @ [ScrollIntoView c]\<rparr>)"

text \<open>\<^verbatim>\<open>#notifySelectionChange()\<close>\<close>

definition notifySelectionChange :: "control \<Rightarrow> control" where
  "notifySelectionChange st =
     st\<lparr>effects := effects st @ [DispatchEvent ''change'', DispatchEvent ''input'']\<rparr>"

subsection \<open>Page navigation\<close>

text \<open>
  The scan of \<^verbatim>\<open>#getNextNonvisibleChildIndex()\<close>:
  \<^verbatim>\<open>for (let c = selectedIndex + 1; c < this.children.length; c++)\<close>. \<open>Some c\<close> is the
  \<^verbatim>\<open>return c\<close> inside the loop, \<open>None\<close> is the loop running to its end.
\<close>

function getNext_loop ::
    "number_ops \<Rightarrow> control \<Rightarrow> DOMRect \<Rightarrow> int \<Rightarrow> int option" where
  "getNext_loop ar st pageBounds c =
     (if c < int (length (children st)) then
        (if \<not> rectContains ar pageBounds (boundingClientRect st (children st ! nat c))
         then Some c
         else getNext_loop ar st pageBounds (c + 1))
      else None)"
  by pat_completeness auto
termination
  by (relation "measure (\<lambda>(ar, st, pageBounds, c). nat (int (length (children st)) - c))")
    auto

declare getNext_loop.simps [simp del]

definition getNextNonvisibleChildIndex :: "number_ops \<Rightarrow> control \<Rightarrow> int" where
  "getNextNonvisibleChildIndex ar st =
     (let sel = selectedIndex st in
      if sel = -1 then -1
      else
        let containerBounds = boundingClientRect st (host st);
            selectionBounds = boundingClientRect st (children st ! nat sel);
            pageBounds0 = fromRect containerBounds;
            pageBounds1 = pageBounds0\<lparr>rect_y := num_add ar (rect_y pageBounds0)
                            (num_sub ar (rect_top ar selectionBounds)
                                        (rect_top ar containerBounds))\<rparr>;
            pageBounds = pageBounds1\<lparr>rect_x := num_add ar (rect_x pageBounds1)
                            (num_sub ar (rect_left ar selectionBounds)
                                        (rect_left ar containerBounds))\<rparr>
        in case getNext_loop ar st pageBounds (sel + 1) of
             Some c \<Rightarrow> c
           | None \<Rightarrow> int (length (children st)) - 1)"

text \<open>
  The scan of \<^verbatim>\<open>#getPreviousNonvisibleChildIndex()\<close>:
  \<^verbatim>\<open>for (let c = selectedIndex - 1; c >= 0; c--)\<close>.
\<close>

function getPrevious_loop ::
    "number_ops \<Rightarrow> control \<Rightarrow> DOMRect \<Rightarrow> int \<Rightarrow> int option" where
  "getPrevious_loop ar st pageBounds c =
     (if c \<ge> 0 then
        (if \<not> rectContains ar pageBounds (boundingClientRect st (children st ! nat c))
         then Some c
         else getPrevious_loop ar st pageBounds (c - 1))
      else None)"
  by pat_completeness auto
termination
  by (relation "measure (\<lambda>(ar, st, pageBounds, c). nat (c + 1))") auto

declare getPrevious_loop.simps [simp del]

definition getPreviousNonvisibleChildIndex :: "number_ops \<Rightarrow> control \<Rightarrow> int" where
  "getPreviousNonvisibleChildIndex ar st =
     (let sel = selectedIndex st in
      if sel = -1 then -1
      else
        let containerBounds = boundingClientRect st (host st);
            selectionBounds = boundingClientRect st (children st ! nat sel);
            pageBounds0 = fromRect containerBounds;
            pageBounds1 = pageBounds0\<lparr>rect_y := num_sub ar (rect_y pageBounds0)
                            (num_sub ar (rect_bottom ar containerBounds)
                                        (rect_bottom ar selectionBounds))\<rparr>;
            pageBounds = pageBounds1\<lparr>rect_x := num_sub ar (rect_x pageBounds1)
                            (num_sub ar (rect_right ar containerBounds)
                                        (rect_right ar selectionBounds))\<rparr>
        in case getPrevious_loop ar st pageBounds (sel - 1) of
             Some c \<Rightarrow> c
           | None \<Rightarrow> 0)"

subsection \<open>The keyboard handler\<close>

text \<open>
  The \<^verbatim>\<open>keydown\<close> listener that \<^verbatim>\<open>#handleFocusIn\<close> installs on the document while
  the control has the focus. \<open>newSelectionIndex\<close> is the chain of tests on
  \<^verbatim>\<open>event.key\<close> that computes the local variable of that name, which starts as the
  current \<^verbatim>\<open>selectedIndex\<close> (\<open>sel\<close>); \<open>None\<close> is the \<^verbatim>\<open>return\<close> of the last
  \<^verbatim>\<open>else\<close>, for a key the control does not claim.
\<close>

definition newSelectionIndex :: "number_ops \<Rightarrow> control \<Rightarrow> string \<Rightarrow> int option" where
  "newSelectionIndex ar st k =
     (let sel = selectedIndex st in
      if k = ''Home'' then Some 0
      else if k = ''End'' then Some (int (length (children st)) - 1)
      else if k = ''PageUp'' then
        (let index = getPreviousNonvisibleChildIndex ar st in
         if index > -1 then Some index else Some sel)
      else if k = ''PageDown'' then
        (let index = getNextNonvisibleChildIndex ar st in
         if index > -1 then Some index else Some sel)
      else if k = ''ArrowRight'' \<or> k = ''ArrowDown'' then
        (if sel < length_of st - 1 then Some (sel + 1) else Some sel)
      else if k = ''ArrowLeft'' \<or> k = ''ArrowUp'' then
        (if sel > 0 then Some (sel - 1) else Some sel)
      else None)"

definition keyHandler :: "number_ops \<Rightarrow> control \<Rightarrow> string \<Rightarrow> control" where
  "keyHandler ar st k =
     (case newSelectionIndex ar st k of
        None \<Rightarrow> st
      | Some new_index \<Rightarrow>
          (let st1 = st\<lparr>effects := effects st @ [PreventDefault]\<rparr> in
           if new_index \<noteq> selectedIndex st1 then
             notifySelectionChange
               (scrollSelectionIntoView (set_selectedIndex st1 new_index))
           else st1))"

subsection \<open>The pointer handler\<close>

record PointerEvent =
  target :: node
  shiftKey :: bool
  defaultPrevented :: bool

text \<open>
  The reassignment of \<^verbatim>\<open>target\<close> in \<^verbatim>\<open>#handlePointerDown\<close>:
  \<^verbatim>\<open>if (target.parentElement !== this) { target = target.parentElement; }\<close>.
  \<open>None\<close> is \<^verbatim>\<open>null\<close>.
\<close>

definition resolveTarget :: "control \<Rightarrow> node \<Rightarrow> node option" where
  "resolveTarget st tg =
     (if parentElement st tg \<noteq> Some (host st) then parentElement st tg else Some tg)"

text \<open>
  \<^verbatim>\<open>#handlePointerDown(event)\<close>. With \<^verbatim>\<open>target\<close> reassigned to \<^verbatim>\<open>null\<close>, the
  call \<^verbatim>\<open>this.#isSelected(target)\<close>, the first statement of either branch, throws a
  \<^verbatim>\<open>TypeError\<close> before anything is changed.
\<close>

definition handlePointerDown :: "control \<Rightarrow> PointerEvent \<Rightarrow> error + control" where
  "handlePointerDown st event =
     (if target event = host st then Inr st
      else
        (let target1 = resolveTarget st (target event) in
         if defaultPrevented event then Inr st
         else
           (case target1 of
              None \<Rightarrow> Inl TypeError
            | Some t \<Rightarrow>
                if allowMultipeSelections st \<and> shiftKey event then
                  (if isSelected st t
                   then Inr (notifySelectionChange (removeFromSelection st t))
                   else Inr (notifySelectionChange (addToSelection st t)))
                else
                  (if isSelected st t then Inr st
                   else Inr (notifySelectionChange
                               (addToSelection (clearSelection st) t))))))"

subsection \<open>Sequences of operations\<close>

text \<open>
  The operations that change the selection: an assignment to the property
  \<^verbatim>\<open>selectedIndex\<close> or \<^verbatim>\<open>selectedChild\<close>, a key press while the control has the
  focus, a pointer press. A handler that throws leaves the store as it was before the
  event.
\<close>

datatype operation =
    AssignSelectedIndex int
  | AssignSelectedChild "node option"
  | KeyDown string
  | PointerDown PointerEvent

fun perform :: "number_ops \<Rightarrow> control \<Rightarrow> operation \<Rightarrow> control" where
  "perform ar st (AssignSelectedIndex v) = set_selectedIndex st v"
| "perform ar st (AssignSelectedChild element) = set_selectedChild st element"
| "perform ar st (KeyDown k) = keyHandler ar st k"
| "perform ar st (PointerDown event) =
     (case handlePointerDown st event of Inl e \<Rightarrow> st | Inr st' \<Rightarrow> st')"

definition run :: "number_ops \<Rightarrow> control \<Rightarrow> operation list \<Rightarrow> control" where
  "run ar st ops = foldl (perform ar) st ops"

text \<open>The invariant of single selection: at most one child carries the marker.\<close>

definition at_most_one_selected :: "control \<Rightarrow> bool" where
  "at_most_one_selected st \<longleftrightarrow> length (selectedChildren st) \<le> 1"

text \<open>What an operation may change: the selection marker, and the record of effects.\<close>

definition only_marker_changed :: "control \<Rightarrow> control \<Rightarrow> bool" where
  "only_marker_changed st st' \<longleftrightarrow>
     host st' = host st \<and>
     children st' = children st \<and>
     parentElement st' = parentElement st \<and>
     (\<forall>element name. name \<noteq> selectedAttributeName \<longrightarrow>
        attributes st' element name = attributes st element name)"

subsection \<open>The specification's page boundaries\<close>







subsection \<open>The arithmetic of doubles\<close>







text \<open>\<open>selectedIndices\<close> of section 4.1: the indices of the selected items, ascending.\<close>

definition selectedIndices :: "control \<Rightarrow> nat list" where
  "selectedIndices st =
     filter (\<lambda>i. isSelected st (children st ! i)) [0 ..< length (children st)]"

subsection \<open>Example documents\<close>

text \<open>
  A control (element 10) with five children (elements 11 to 15). Element 16 is a child
  of element 12 and element 17 a child of element 16. Every child carries a \<^verbatim>\<open>class\<close>
  attribute; the children listed in \<open>sel\<close> carry the selection marker too.
\<close>

definition example_parent :: "node \<Rightarrow> node option" where
  "example_parent n =
     (if n = 11 \<or> n = 12 \<or> n = 13 \<or> n = 14 \<or> n = 15 then Some 10
      else if n = 16 then Some 12
      else if n = 17 then Some 16
      else None)"

definition example_control :: "node list \<Rightarrow> bool \<Rightarrow> control" where
  "example_control sel multi =
     \<lparr>host = 10,
      children = [11, 12, 13, 14, 15],
      parentElement = example_parent,
      attributes = (\<lambda>n. if n \<in> set sel
                         then [''class'' \<mapsto> ''item'', ''data-selected'' \<mapsto> '''']
                         else [''class'' \<mapsto> ''item'']),
      boundingClientRect = (\<lambda>n. \<lparr>rect_x = 0, rect_y = 20 * real n,
                                 rect_width = 100, rect_height = 20\<rparr>),
      allowMultipeSelections = multi,
      effects = []\<rparr>"

text \<open>A control without children.\<close>

definition empty_control :: control where
  "empty_control =
     \<lparr>host = 10,
      children = [],
      parentElement = (\<lambda>n. None),
      attributes = (\<lambda>n. Map.empty),
      boundingClientRect = (\<lambda>n. \<lparr>rect_x = 0, rect_y = 0,
                                 rect_width = 100, rect_height = 100\<rparr>),
      allowMultipeSelections = False,
      effects = []\<rparr>"

text \<open>
  The geometry of section 8 of the specification: the visible region of the control is
  \<open>[0,0]-[100,100]\<close>, the selected item (element 11) is at \<open>[10,10]-[20,20]\<close>, and the
  items after it are at \<open>[30,30]-[40,40]\<close> (element 12) and \<open>[150,150]-[160,160]\<close>
  (element 13).
\<close>

definition page_rect :: "node \<Rightarrow> DOMRect" where
  "page_rect n =
     (if n = 11 then \<lparr>rect_x = 10, rect_y = 10, rect_width = 10, rect_height = 10\<rparr>
      else if n = 12 then \<lparr>rect_x = 30, rect_y = 30, rect_width = 10, rect_height = 10\<rparr>
      else if n = 13 then \<lparr>rect_x = 150, rect_y = 150, rect_width = 10, rect_height = 10\<rparr>
      else \<lparr>rect_x = 0, rect_y = 0, rect_width = 100, rect_height = 100\<rparr>)"












definition row_rect :: "real \<Rightarrow> real \<Rightarrow> node \<Rightarrow> DOMRect" where
  "row_rect host_y item_y n =
     (if n = 11 then \<lparr>rect_x = 0, rect_y = item_y, rect_width = 10, rect_height = 10\<rparr>
      else if n = 12 then \<lparr>rect_x = 10, rect_y = item_y, rect_width = 10, rect_height = 10\<rparr>
      else if n = 13 then \<lparr>rect_x = 20, rect_y = item_y, rect_width = 10, rect_height = 10\<rparr>
      else \<lparr>rect_x = 0, rect_y = host_y, rect_width = 100, rect_height = 100\<rparr>)"


definition page_control :: "node \<Rightarrow> control" where
  "page_control selected =
     \<lparr>host = 10,
      children = [11, 12, 13],
      parentElement = (\<lambda>n. if n = 11 \<or> n = 12 \<or> n = 13 then Some 10 else None),
      attributes = (\<lambda>n. if n = selected then [''data-selected'' \<mapsto> ''''] else Map.empty),
      boundingClientRect = page_rect,
      allowMultipeSelections = False,
      effects = []\<rparr>"

section \<open>Facts about the store operations\<close>

lemma removeFromSelection_fields [simp]:
  "host (removeFromSelection st e) = host st"
  "children (removeFromSelection st e) = children st"
  "parentElement (removeFromSelection st e) = parentElement st"
  "boundingClientRect (removeFromSelection st e) = boundingClientRect st"
  "allowMultipeSelections (removeFromSelection st e) = allowMultipeSelections st"
  "effects (removeFromSelection st e) = effects st"
  by (simp_all add: removeFromSelection_def)

lemma addToSelection_fields [simp]:
  "host (addToSelection st e) = host st"
  "children (addToSelection st e) = children st"
  "parentElement (addToSelection st e) = parentElement st"
  "boundingClientRect (addToSelection st e) = boundingClientRect st"
  "allowMultipeSelections (addToSelection st e) = allowMultipeSelections st"
  "effects (addToSelection st e) = effects st"
  by (simp_all add: addToSelection_def)

lemma attributes_removeFromSelection:
  "attributes (removeFromSelection st e) e' a =
     (if e' = e \<and> a = selectedAttributeName then None else attributes st e' a)"
  by (simp add: removeFromSelection_def)

lemma attributes_addToSelection:
  "attributes (addToSelection st e) e' a =
     (if e' = e \<and> a = selectedAttributeName then Some '''' else attributes st e' a)"
  by (simp add: addToSelection_def)

lemma isSelected_removeFromSelection [simp]:
  "isSelected (removeFromSelection st e) e' \<longleftrightarrow> e' \<noteq> e \<and> isSelected st e'"
  by (simp add: isSelected_def attributes_removeFromSelection)

lemma isSelected_addToSelection [simp]:
  "isSelected (addToSelection st e) e' \<longleftrightarrow> e' = e \<or> isSelected st e'"
  by (simp add: isSelected_def attributes_addToSelection)

lemma foldl_removeFromSelection_fields [simp]:
  "host (foldl removeFromSelection st xs) = host st"
  "children (foldl removeFromSelection st xs) = children st"
  "parentElement (foldl removeFromSelection st xs) = parentElement st"
  "boundingClientRect (foldl removeFromSelection st xs) = boundingClientRect st"
  "allowMultipeSelections (foldl removeFromSelection st xs) = allowMultipeSelections st"
  "effects (foldl removeFromSelection st xs) = effects st"
  by (induction xs arbitrary: st; simp)+

lemma attributes_foldl_removeFromSelection:
  "attributes (foldl removeFromSelection st xs) e a =
     (if e \<in> set xs \<and> a = selectedAttributeName then None else attributes st e a)"
  by (induction xs arbitrary: st) (auto simp: attributes_removeFromSelection)

lemma clearSelection_fields [simp]:
  "host (clearSelection st) = host st"
  "children (clearSelection st) = children st"
  "parentElement (clearSelection st) = parentElement st"
  "boundingClientRect (clearSelection st) = boundingClientRect st"
  "allowMultipeSelections (clearSelection st) = allowMultipeSelections st"
  "effects (clearSelection st) = effects st"
  by (simp_all add: clearSelection_def)

lemma attributes_clearSelection:
  "attributes (clearSelection st) e a =
     (if e \<in> set (children st) \<and> isSelected st e \<and> a = selectedAttributeName
      then None else attributes st e a)"
  by (simp add: clearSelection_def attributes_foldl_removeFromSelection selectedChildren_def)

lemma isSelected_clearSelection [simp]:
  "isSelected (clearSelection st) e \<longleftrightarrow> isSelected st e \<and> e \<notin> set (children st)"
  by (auto simp: isSelected_def attributes_clearSelection)

lemma selectedChildren_clearSelection [simp]:
  "selectedChildren (clearSelection st) = []"
  by (simp add: selectedChildren_def filter_empty_conv)

section \<open>The loops as list searches\<close>

lemma find_upt_Some_iff:
  "find P [m ..< n] = Some j \<longleftrightarrow>
     m \<le> j \<and> j < n \<and> P j \<and> (\<forall>k. m \<le> k \<and> k < j \<longrightarrow> \<not> P k)"
proof
  assume "find P [m ..< n] = Some j"
  then obtain i where i: "i < n - m" "P (m + i)" "j = m + i" "\<forall>k<i. \<not> P (m + k)"
    by (auto simp: find_Some_iff)
  have "\<not> P k" if "m \<le> k" "k < j" for k
    using i(4)[rule_format, of "k - m"] that i(3) by simp
  with i show "m \<le> j \<and> j < n \<and> P j \<and> (\<forall>k. m \<le> k \<and> k < j \<longrightarrow> \<not> P k)"
    by auto
next
  assume a: "m \<le> j \<and> j < n \<and> P j \<and> (\<forall>k. m \<le> k \<and> k < j \<longrightarrow> \<not> P k)"
  then have "j - m < length [m ..< n] \<and> P ([m ..< n] ! (j - m)) \<and> j = [m ..< n] ! (j - m)
      \<and> (\<forall>k < j - m. \<not> P ([m ..< n] ! k))"
    by auto
  then show "find P [m ..< n] = Some j"
    unfolding find_Some_iff by blast
qed

lemma find_upt_None_iff:
  "find P [m ..< n] = None \<longleftrightarrow> (\<forall>k. m \<le> k \<and> k < n \<longrightarrow> \<not> P k)"
  by (auto simp: find_None_iff)

lemma selectedIndex_loop_find:
  "selectedIndex_loop st i =
     (case find (\<lambda>j. isSelected st (children st ! j)) [i ..< length (children st)] of
        None \<Rightarrow> -1 | Some j \<Rightarrow> int j)"
proof (induction st i rule: selectedIndex_loop.induct)
  case (1 st index)
  show ?case
  proof (cases "index < length (children st)")
    case True
    then have "[index ..< length (children st)] = index # [Suc index ..< length (children st)]"
      by (simp add: upt_conv_Cons)
    with True 1 show ?thesis
      by (subst selectedIndex_loop.simps) simp
  next
    case False
    then show ?thesis
      by (subst selectedIndex_loop.simps) simp
  qed
qed

lemma selectedIndex_find:
  "selectedIndex st =
     (case find (\<lambda>j. isSelected st (children st ! j)) [0 ..< length (children st)] of
        None \<Rightarrow> -1 | Some j \<Rightarrow> int j)"
  by (simp add: selectedIndex_def selectedIndex_loop_find)

lemma selectedIndex_none_iff:
  "selectedIndex st = -1 \<longleftrightarrow> (\<forall>c \<in> set (children st). \<not> isSelected st c)"
proof -
  have "selectedIndex st = -1 \<longleftrightarrow>
      find (\<lambda>j. isSelected st (children st ! j)) [0 ..< length (children st)] = None"
    by (simp add: selectedIndex_find split: option.splits)
  also have "\<dots> \<longleftrightarrow> (\<forall>k < length (children st). \<not> isSelected st (children st ! k))"
    by (simp add: find_upt_None_iff)
  also have "\<dots> \<longleftrightarrow> (\<forall>c \<in> set (children st). \<not> isSelected st c)"
    by (simp add: all_set_conv_all_nth)
  finally show ?thesis .
qed

lemma selectedIndex_first:
  assumes "selectedIndex st \<noteq> -1"
  shows "0 \<le> selectedIndex st"
    and "nat (selectedIndex st) < length (children st)"
    and "isSelected st (children st ! nat (selectedIndex st))"
    and "\<forall>j < nat (selectedIndex st). \<not> isSelected st (children st ! j)"
proof -
  obtain j where j: "find (\<lambda>j. isSelected st (children st ! j)) [0 ..< length (children st)] = Some j"
    using assms by (auto simp: selectedIndex_find split: option.splits)
  then have eq: "selectedIndex st = int j"
    by (simp add: selectedIndex_find)
  from j have "j < length (children st) \<and> isSelected st (children st ! j)
      \<and> (\<forall>k < j. \<not> isSelected st (children st ! k))"
    by (simp add: find_upt_Some_iff)
  with eq show "0 \<le> selectedIndex st"
    and "nat (selectedIndex st) < length (children st)"
    and "isSelected st (children st ! nat (selectedIndex st))"
    and "\<forall>j < nat (selectedIndex st). \<not> isSelected st (children st ! j)"
    by simp_all
qed

lemma selectedIndex_range: "-1 \<le> selectedIndex st \<and> selectedIndex st < int (length (children st))"
  using selectedIndex_first(1,2)[of st] by (cases "selectedIndex st = -1") auto

lemma selectedIndex_cong:
  assumes "children st' = children st"
    and "\<forall>c \<in> set (children st). isSelected st' c = isSelected st c"
  shows "selectedIndex st' = selectedIndex st"
proof -
  have "find (\<lambda>j. isSelected st' (children st ! j)) [0 ..< length (children st)]
      = find (\<lambda>j. isSelected st (children st ! j)) [0 ..< length (children st)]"
    using assms(2) by (intro find_cong) auto
  then show ?thesis
    by (simp add: selectedIndex_find assms(1))
qed

lemma selectedIndex_effects [simp]:
  "selectedIndex (st\<lparr>effects := e\<rparr>) = selectedIndex st"
  by (rule selectedIndex_cong) (simp_all add: isSelected_def)

lemma selectedChildren_effects [simp]:
  "selectedChildren (st\<lparr>effects := e\<rparr>) = selectedChildren st"
  by (simp add: selectedChildren_def isSelected_def[abs_def])

lemma selectedChildren_empty_iff:
  "selectedChildren st = [] \<longleftrightarrow> selectedIndex st = -1"
  by (simp add: selectedChildren_def filter_empty_conv selectedIndex_none_iff)

lemma selectedIndex_eqI:
  assumes "i < length (children st)" and "isSelected st (children st ! i)"
    and "\<forall>j < i. \<not> isSelected st (children st ! j)"
  shows "selectedIndex st = int i"
proof -
  have "find (\<lambda>j. isSelected st (children st ! j)) [0 ..< length (children st)] = Some i"
    using assms by (simp add: find_upt_Some_iff)
  then show ?thesis by (simp add: selectedIndex_find)
qed

lemma hd_selectedChildren:
  assumes "selectedIndex st \<noteq> -1"
  shows "hd (selectedChildren st) = children st ! nat (selectedIndex st)"
proof -
  let ?i = "nat (selectedIndex st)"
  have i: "?i < length (children st)" "isSelected st (children st ! ?i)"
    "\<forall>j < ?i. \<not> isSelected st (children st ! j)"
    using selectedIndex_first[OF assms] by auto
  have split: "children st = take ?i (children st) @ children st ! ?i # drop (Suc ?i) (children st)"
    using i(1) by (simp add: id_take_nth_drop)
  have "filter (isSelected st) (take ?i (children st)) = []"
    using i(3) by (auto simp: filter_empty_conv in_set_conv_nth)
  then have "selectedChildren st =
      children st ! ?i # filter (isSelected st) (drop (Suc ?i) (children st))"
    unfolding selectedChildren_def by (subst split) (simp add: i(2))
  then show ?thesis by simp
qed

section \<open>Page navigation against the specification\<close>

lemma getNext_loop_find:
  "0 \<le> c \<Longrightarrow>
   getNext_loop ar st page c =
     map_option int
       (find (\<lambda>j. \<not> rectContains ar page (boundingClientRect st (children st ! j)))
          [nat c ..< length (children st)])"
proof (induction ar st page c rule: getNext_loop.induct)
  case (1 ar st page c)
  show ?case
  proof (cases "c < int (length (children st))")
    case True
    with 1(2) have "[nat c ..< length (children st)]
        = nat c # [nat (c + 1) ..< length (children st)]"
      by (simp add: upt_conv_Cons nat_add_distrib)
    with True 1 show ?thesis
      by (subst getNext_loop.simps) simp
  next
    case False
    with 1(2) show ?thesis
      by (subst getNext_loop.simps) simp
  qed
qed

lemma getPrevious_loop_find:
  "-1 \<le> c \<Longrightarrow>
   getPrevious_loop ar st page c =
     map_option int
       (find (\<lambda>j. \<not> rectContains ar page (boundingClientRect st (children st ! j)))
          (rev [0 ..< nat (c + 1)]))"
proof (induction ar st page c rule: getPrevious_loop.induct)
  case (1 ar st page c)
  show ?case
  proof (cases "c \<ge> 0")
    case True
    then have "nat (c + 1) = Suc (nat c)" by simp
    then have "rev [0 ..< nat (c + 1)] = nat c # rev [0 ..< nat (c - 1 + 1)]"
      by simp
    with True 1 show ?thesis
      by (subst getPrevious_loop.simps) simp
  next
    case False
    with 1(2) show ?thesis
      by (subst getPrevious_loop.simps) simp
  qed
qed

lemma find_Some_in_set: "find P xs = Some x \<Longrightarrow> x \<in> set xs"
  by (induction xs) (auto split: if_splits)

text \<open>Whatever the arithmetic, the scans return an index of a child.\<close>

lemma getNext_range:
  assumes "selectedIndex st \<noteq> -1"
  shows "0 \<le> getNextNonvisibleChildIndex ar st \<and>
         getNextNonvisibleChildIndex ar st < int (length (children st))"
proof -
  have "0 \<le> selectedIndex st" "selectedIndex st < int (length (children st))"
    using selectedIndex_first(1,2)[OF assms] by simp_all
  then show ?thesis
    using assms unfolding getNextNonvisibleChildIndex_def Let_def
    by (auto simp: getNext_loop_find find_upt_Some_iff split: option.splits)
qed

lemma getPrevious_range:
  assumes "selectedIndex st \<noteq> -1"
  shows "0 \<le> getPreviousNonvisibleChildIndex ar st \<and>
         getPreviousNonvisibleChildIndex ar st < int (length (children st))"
proof -
  have "0 \<le> selectedIndex st" "selectedIndex st < int (length (children st))"
    using selectedIndex_first(1,2)[OF assms] by simp_all
  then show ?thesis
    using assms unfolding getPreviousNonvisibleChildIndex_def Let_def
    by (auto simp: getPrevious_loop_find split: option.splits dest!: find_Some_in_set)
qed

text \<open>With exact additions, the window of the code is the shifted rectangle.\<close>

lemma fromRect_fields [simp]:
  "rect_x (fromRect r) = rect_x r" "rect_y (fromRect r) = rect_y r"
  "rect_width (fromRect r) = rect_width r" "rect_height (fromRect r) = rect_height r"
  by (simp_all add: fromRect_def)





















lemma row_rect_fields:
  "rect_x (row_rect hy iy 10) = 0" "rect_y (row_rect hy iy 10) = hy"
  "rect_width (row_rect hy iy 10) = 100" "rect_height (row_rect hy iy 10) = 100"
  by (simp_all add: row_rect_def)

















section \<open>Exclusive selection\<close>

lemma isSelected_effects [simp]: "isSelected (st\<lparr>effects := e\<rparr>) c = isSelected st c"
  by (simp add: isSelected_def)

lemma notifySelectionChange_fields [simp]:
  "host (notifySelectionChange st) = host st"
  "children (notifySelectionChange st) = children st"
  "parentElement (notifySelectionChange st) = parentElement st"
  "attributes (notifySelectionChange st) = attributes st"
  "boundingClientRect (notifySelectionChange st) = boundingClientRect st"
  "allowMultipeSelections (notifySelectionChange st) = allowMultipeSelections st"
  "effects (notifySelectionChange st) =
     effects st @ [DispatchEvent ''change'', DispatchEvent ''input'']"
  "isSelected (notifySelectionChange st) c = isSelected st c"
  "selectedChildren (notifySelectionChange st) = selectedChildren st"
  "selectedIndex (notifySelectionChange st) = selectedIndex st"
  by (simp_all add: notifySelectionChange_def)

lemma scrollSelectionIntoView_fields [simp]:
  "host (scrollSelectionIntoView st) = host st"
  "children (scrollSelectionIntoView st) = children st"
  "parentElement (scrollSelectionIntoView st) = parentElement st"
  "attributes (scrollSelectionIntoView st) = attributes st"
  "boundingClientRect (scrollSelectionIntoView st) = boundingClientRect st"
  "allowMultipeSelections (scrollSelectionIntoView st) = allowMultipeSelections st"
  "isSelected (scrollSelectionIntoView st) c = isSelected st c"
  "selectedChildren (scrollSelectionIntoView st) = selectedChildren st"
  "selectedIndex (scrollSelectionIntoView st) = selectedIndex st"
  by (simp_all add: scrollSelectionIntoView_def split: option.splits)

lemma filter_eq_distinct:
  "distinct xs \<Longrightarrow> filter (\<lambda>y. y = x) xs = (if x \<in> set xs then [x] else [])"
  by (induction xs) auto

lemma selectedChildren_add_after_clear:
  "distinct (children st) \<Longrightarrow>
   selectedChildren (addToSelection (clearSelection st) t) =
     (if t \<in> set (children st) then [t] else [])"
proof -
  assume d: "distinct (children st)"
  have "filter (isSelected (addToSelection (clearSelection st) t)) (children st)
      = filter (\<lambda>y. y = t) (children st)"
    by (rule filter_cong) auto
  with d show ?thesis
    by (simp add: selectedChildren_def filter_eq_distinct)
qed

lemma at_most_one_add_after_clear:
  "distinct (children st) \<Longrightarrow>
   at_most_one_selected (addToSelection (clearSelection st) t)"
  by (simp add: at_most_one_selected_def selectedChildren_add_after_clear)

lemma at_most_one_clearSelection: "at_most_one_selected (clearSelection st)"
  by (simp add: at_most_one_selected_def)

lemma set_selectedIndex_fields [simp]:
  "host (set_selectedIndex st v) = host st"
  "children (set_selectedIndex st v) = children st"
  "parentElement (set_selectedIndex st v) = parentElement st"
  "boundingClientRect (set_selectedIndex st v) = boundingClientRect st"
  "allowMultipeSelections (set_selectedIndex st v) = allowMultipeSelections st"
  "effects (set_selectedIndex st v) = effects st"
  by (simp_all add: set_selectedIndex_def Let_def)

lemma set_selectedIndex_in_range:
  assumes "distinct (children st)" and "0 \<le> v" and "v < int (length (children st))"
  shows "selectedChildren (set_selectedIndex st v) = [children st ! nat v]"
    and "selectedIndex (set_selectedIndex st v) = v"
    and "selectedChild (set_selectedIndex st v) = Some (children st ! nat v)"
proof -
  let ?st' = "set_selectedIndex st v"
  have eq: "?st' = addToSelection (clearSelection st) (children st ! nat v)"
    using assms by (simp add: set_selectedIndex_def)
  have v: "nat v < length (children st)" using assms by simp
  then show sc: "selectedChildren ?st' = [children st ! nat v]"
    using assms(1) by (simp add: eq selectedChildren_add_after_clear)
  have "selectedIndex ?st' = int (nat v)"
  proof (rule selectedIndex_eqI)
    show "nat v < length (children ?st')" using v by simp
    show "isSelected ?st' (children ?st' ! nat v)" by (simp add: eq)
    show "\<forall>j < nat v. \<not> isSelected ?st' (children ?st' ! j)"
      using assms(1) v by (auto simp: eq nth_eq_iff_index_eq)
  qed
  then show si: "selectedIndex ?st' = v" using assms(2) by simp
  show "selectedChild ?st' = Some (children st ! nat v)"
    using assms(2) by (simp add: selectedChild_def si)
qed

lemma set_selectedIndex_out_of_range:
  assumes "v < 0 \<or> int (length (children st)) \<le> v"
  shows "set_selectedIndex st v = clearSelection st"
    and "selectedChildren (set_selectedIndex st v) = []"
  using assms by (auto simp: set_selectedIndex_def)

lemma at_most_one_set_selectedIndex:
  "distinct (children st) \<Longrightarrow> at_most_one_selected (set_selectedIndex st v)"
  by (simp add: set_selectedIndex_def Let_def at_most_one_add_after_clear
      at_most_one_clearSelection)

lemma clearSelection_idle:
  "selectedChildren st = [] \<Longrightarrow> clearSelection st = st"
  by (simp add: clearSelection_def)

lemma set_selectedChild_loop_cases:
  "set_selectedChild_loop st element i = st \<or>
   (\<exists>c \<in> set (children st). element = Some c \<and>
      set_selectedChild_loop st element i = addToSelection st c)"
proof (induction st element i rule: set_selectedChild_loop.induct)
  case (1 st element index)
  show ?case
  proof (cases "index < length (children st)")
    case True
    then show ?thesis
      using 1 by (subst (1 2) set_selectedChild_loop.simps) auto
  next
    case False
    then show ?thesis
      by (subst set_selectedChild_loop.simps) simp
  qed
qed

lemma set_selectedChild_loop_non_child:
  assumes "\<forall>c \<in> set (children st). Some c \<noteq> element"
  shows "set_selectedChild_loop st element i = st"
  using set_selectedChild_loop_cases[of st element i] assms by auto

lemma set_selectedChild_non_child:
  assumes "\<forall>c \<in> set (children st). Some c \<noteq> element"
  shows "set_selectedChild st element = clearSelection st"
  unfolding set_selectedChild_def
  by (rule set_selectedChild_loop_non_child) (use assms in simp)

lemma set_selectedChild_cases:
  "set_selectedChild st element = clearSelection st \<or>
   (\<exists>c \<in> set (children st). element = Some c \<and>
      set_selectedChild st element = addToSelection (clearSelection st) c)"
  using set_selectedChild_loop_cases[of "clearSelection st" element 0]
  by (simp add: set_selectedChild_def)

lemma at_most_one_set_selectedChild:
  "distinct (children st) \<Longrightarrow> at_most_one_selected (set_selectedChild st element)"
  using set_selectedChild_cases[of st element]
  by (auto simp: at_most_one_add_after_clear at_most_one_clearSelection)

section \<open>The example documents\<close>

lemma example_control_fields [simp]:
  "host (example_control sel multi) = 10"
  "children (example_control sel multi) = [11, 12, 13, 14, 15]"
  "parentElement (example_control sel multi) = example_parent"
  "allowMultipeSelections (example_control sel multi) = multi"
  "effects (example_control sel multi) = []"
  "isSelected (example_control sel multi) n \<longleftrightarrow> n \<in> set sel"
  "attributes (example_control sel multi) n ''class'' = Some ''item''"
  by (simp_all add: example_control_def isSelected_def selectedAttributeName_def)

lemma wf_dom_example_control: "wf_dom (example_control sel multi)"
  by (simp add: wf_dom_def example_parent_def)

lemma selectedChildren_example_control:
  "selectedChildren (example_control sel multi) = filter (\<lambda>n. n \<in> set sel) [11, 12, 13, 14, 15]"
  by (simp add: selectedChildren_def)

section \<open>Assignment to \<open>selectedChild\<close>\<close>

text \<open>
  Claim C2, as stated: assigning a value that is not a child of the control to
  \<^verbatim>\<open>selectedChild\<close> leaves the selection as it was. The setter clears the selection
  before it looks for the value among the children: with element 11 selected, assigning
  \<^verbatim>\<open>null\<close>, or element 16 (a grandchild of the control), leaves no child selected.
\<close>

theorem set_selectedChild_non_child_counterexample:
  "selectedChildren (example_control [11] False) = [11] \<and>
   selectedChildren (set_selectedChild (example_control [11] False) None) = [] \<and>
   16 \<notin> set (children (example_control [11] False)) \<and>
   selectedChildren (set_selectedChild (example_control [11] False) (Some 16)) = [] \<and>
   selectedChildren (set_selectedChild (example_control [11] False) None)
     \<noteq> selectedChildren (example_control [11] False)"
  by (simp add: set_selectedChild_non_child selectedChildren_example_control)

text \<open>
  Claim C2, amended: assigning a value that is not a child of the control to
  \<^verbatim>\<open>selectedChild\<close> clears the selection. The setter does what
  \<^verbatim>\<open>#clearSelection()\<close> does and nothing more: afterwards no child is selected, so
  no new child becomes selected, and an element that is not a child keeps the marker it
  has. With no child selected before, the store is left as it was.
\<close>

theorem set_selectedChild_non_child_clears:
  assumes "\<forall>c \<in> set (children st). Some c \<noteq> element"
  shows "set_selectedChild st element = clearSelection st \<and>
         selectedChildren (set_selectedChild st element) = [] \<and>
         (\<forall>c \<in> set (children st). \<not> isSelected (set_selectedChild st element) c) \<and>
         (\<forall>e. e \<notin> set (children st) \<longrightarrow>
            isSelected (set_selectedChild st element) e = isSelected st e) \<and>
         (selectedChildren st = [] \<longrightarrow> set_selectedChild st element = st)"
  by (simp add: set_selectedChild_non_child[OF assms] clearSelection_idle)

theorem set_selectedChild_non_child_clears_witness:
  "selectedChildren (example_control [11, 13] True) = [11, 13] \<and>
   selectedChildren (set_selectedChild (example_control [11, 13] True) (Some 16)) = [] \<and>
   \<not> isSelected (set_selectedChild (example_control [11, 13] True) (Some 16)) 11 \<and>
   selectedChildren (example_control [] False) = [] \<and>
   set_selectedChild (example_control [] False) None = example_control [] False"
proof -
  have a: "\<forall>c \<in> set (children (example_control [11, 13] True)). Some c \<noteq> Some 16"
    by simp
  have b: "\<forall>c \<in> set (children (example_control [] False)). Some c \<noteq> None"
    by simp
  have e: "selectedChildren (example_control [] False) = []"
    by (simp add: selectedChildren_example_control)
  note A = set_selectedChild_non_child_clears[OF a]
  note B = set_selectedChild_non_child_clears[OF b]
  have "selectedChildren (example_control [11, 13] True) = [11, 13]"
    by (simp add: selectedChildren_example_control)
  moreover have "selectedChildren (set_selectedChild (example_control [11, 13] True) (Some 16)) = []"
    using A by blast
  moreover have "\<not> isSelected (set_selectedChild (example_control [11, 13] True) (Some 16)) 11"
    using A by simp
  moreover have "set_selectedChild (example_control [] False) None = example_control [] False"
    using B e by blast
  ultimately show ?thesis
    using e by blast
qed

section \<open>Pointer presses\<close>

lemma resolveTarget_example:
  "resolveTarget (example_control sel multi) 11 = Some 11"
  "resolveTarget (example_control sel multi) 13 = Some 13"
  "resolveTarget (example_control sel multi) 16 = Some 12"
  "resolveTarget (example_control sel multi) 17 = Some 16"
  by (simp_all add: resolveTarget_def example_parent_def)

lemma handlePointerDown_exclusive:
  assumes "target ev \<noteq> host st" and "resolveTarget st (target ev) = Some t"
    and "\<not> defaultPrevented ev" and "\<not> (allowMultipeSelections st \<and> shiftKey ev)"
  shows "handlePointerDown st ev =
     (if isSelected st t then Inr st
      else Inr (notifySelectionChange (addToSelection (clearSelection st) t)))"
  using assms by (auto simp: handlePointerDown_def)

lemma handlePointerDown_additive:
  assumes "target ev \<noteq> host st" and "resolveTarget st (target ev) = Some t"
    and "\<not> defaultPrevented ev" and "allowMultipeSelections st" and "shiftKey ev"
  shows "handlePointerDown st ev =
     (if isSelected st t then Inr (notifySelectionChange (removeFromSelection st t))
      else Inr (notifySelectionChange (addToSelection st t)))"
  using assms by (simp add: handlePointerDown_def)

lemma handlePointerDown_ignored:
  "target ev = host st \<or> defaultPrevented ev \<Longrightarrow> handlePointerDown st ev = Inr st"
  by (auto simp: handlePointerDown_def)

text \<open>
  Claim C3, as stated: a press without the shift key on a child does nothing when that
  child is the only selected one, and in every other case clears the selection, selects
  the pressed child and notifies. The handler returns as soon as the pressed child
  carries the marker, whatever else is selected: with elements 11 and 13 selected, a
  press on element 11 leaves both selected and notifies nobody. A press whose default
  action was prevented is ignored too, also on a child that is not selected.
\<close>

theorem exclusive_press_counterexample:
  "selectedChildren (example_control [11, 13] True) = [11, 13] \<and>
   resolveTarget (example_control [11, 13] True) 11 = Some 11 \<and>
   handlePointerDown (example_control [11, 13] True)
       \<lparr>target = 11, shiftKey = False, defaultPrevented = False\<rparr>
     = Inr (example_control [11, 13] True) \<and>
   selectedChildren (example_control [] False) = [] \<and>
   handlePointerDown (example_control [] False)
       \<lparr>target = 11, shiftKey = False, defaultPrevented = True\<rparr>
     = Inr (example_control [] False)"
  by (simp add: selectedChildren_example_control resolveTarget_example
      handlePointerDown_exclusive handlePointerDown_ignored)

text \<open>
  Claim C3, amended: for a press without the shift key whose default action has not been
  prevented and that resolves to a child of the control: if that child is already
  selected, alone or with others, the press changes nothing and notifies nobody;
  otherwise the press clears the selection, selects exactly the pressed child and
  dispatches one \<^verbatim>\<open>change\<close> and one \<^verbatim>\<open>input\<close> event.
\<close>

theorem exclusive_press:
  assumes "target ev \<noteq> host st" and "resolveTarget st (target ev) = Some t"
    and "t \<in> set (children st)" and "distinct (children st)"
    and "\<not> shiftKey ev" and "\<not> defaultPrevented ev"
  shows "(isSelected st t \<longrightarrow> handlePointerDown st ev = Inr st) \<and>
         (\<not> isSelected st t \<longrightarrow>
            (\<exists>st'. handlePointerDown st ev = Inr st' \<and>
               selectedChildren st' = [t] \<and>
               (\<forall>c \<in> set (children st'). isSelected st' c \<longleftrightarrow> c = t) \<and>
               children st' = children st \<and>
               effects st' = effects st @ [DispatchEvent ''change'', DispatchEvent ''input'']))"
proof -
  have eq: "handlePointerDown st ev =
     (if isSelected st t then Inr st
      else Inr (notifySelectionChange (addToSelection (clearSelection st) t)))"
    using assms by (intro handlePointerDown_exclusive) simp_all
  show ?thesis
    using assms(3,4) by (simp add: eq selectedChildren_add_after_clear)
qed

theorem exclusive_press_witness:
  "\<not> isSelected (example_control [12, 13] True) 11 \<and>
   (\<exists>st'. handlePointerDown (example_control [12, 13] True)
            \<lparr>target = 11, shiftKey = False, defaultPrevented = False\<rparr> = Inr st' \<and>
      selectedChildren st' = [11] \<and>
      effects st' = [DispatchEvent ''change'', DispatchEvent ''input'']) \<and>
   isSelected (example_control [12, 13] True) 12 \<and>
   handlePointerDown (example_control [12, 13] True)
       \<lparr>target = 16, shiftKey = False, defaultPrevented = False\<rparr>
     = Inr (example_control [12, 13] True)"
proof -
  let ?st = "example_control [12, 13] True"
  let ?a = "\<lparr>target = 11, shiftKey = False, defaultPrevented = False\<rparr>"
  let ?b = "\<lparr>target = 16, shiftKey = False, defaultPrevented = False\<rparr>"
  have A: "(\<exists>st'. handlePointerDown ?st ?a = Inr st' \<and> selectedChildren st' = [11] \<and>
      effects st' = [DispatchEvent ''change'', DispatchEvent ''input''])"
    using exclusive_press[of ?a ?st 11] by (simp add: resolveTarget_example) blast
  have B: "handlePointerDown ?st ?b = Inr ?st"
    using exclusive_press[of ?b ?st 12] by (simp add: resolveTarget_example)
  show ?thesis
    using A B by simp
qed


text \<open>
  Claim C8. In multi-selection mode, a press with the shift key on a resolved item, that
  is a press that reaches the toggle of the handler (the press is not on the control
  itself and its default action has not been prevented, the two cases the handler and
  section 4.4 of the specification set aside before the toggle), toggles the element it
  resolves to: a selected element becomes deselected, any other becomes selected. In both
  cases one \<^verbatim>\<open>change\<close> and one \<^verbatim>\<open>input\<close> event are dispatched, the marker of
  every other element is as it was, and so are all attributes but the marker.
\<close>

theorem additive_press:
  assumes "allowMultipeSelections st" and "shiftKey ev" and "\<not> defaultPrevented ev"
    and "target ev \<noteq> host st" and "resolveTarget st (target ev) = Some t"
  shows "\<exists>st'. handlePointerDown st ev = Inr st' \<and>
           (isSelected st' t \<longleftrightarrow> \<not> isSelected st t) \<and>
           (\<forall>c. c \<noteq> t \<longrightarrow> isSelected st' c = isSelected st c) \<and>
           only_marker_changed st st' \<and>
           effects st' = effects st @ [DispatchEvent ''change'', DispatchEvent ''input'']"
proof -
  have eq: "handlePointerDown st ev =
     (if isSelected st t then Inr (notifySelectionChange (removeFromSelection st t))
      else Inr (notifySelectionChange (addToSelection st t)))"
    using assms by (intro handlePointerDown_additive) simp_all
  show ?thesis
    by (simp add: eq only_marker_changed_def attributes_removeFromSelection
        attributes_addToSelection)
qed

theorem additive_press_witness:
  "(\<exists>st'. handlePointerDown (example_control [11, 13] True)
            \<lparr>target = 11, shiftKey = True, defaultPrevented = False\<rparr> = Inr st' \<and>
      selectedChildren st' = [13] \<and>
      effects st' = [DispatchEvent ''change'', DispatchEvent ''input'']) \<and>
   (\<exists>st'. handlePointerDown (example_control [11, 13] True)
            \<lparr>target = 16, shiftKey = True, defaultPrevented = False\<rparr> = Inr st' \<and>
      selectedChildren st' = [11, 12, 13] \<and>
      effects st' = [DispatchEvent ''change'', DispatchEvent ''input''])"
proof -
  let ?st = "example_control [11, 13] True"
  let ?a = "\<lparr>target = 11, shiftKey = True, defaultPrevented = False\<rparr>"
  let ?b = "\<lparr>target = 16, shiftKey = True, defaultPrevented = False\<rparr>"
  obtain sa where sa: "handlePointerDown ?st ?a = Inr sa" "\<not> isSelected sa 11"
      "\<forall>c. c \<noteq> 11 \<longrightarrow> isSelected sa c = isSelected ?st c" "only_marker_changed ?st sa"
      "effects sa = [DispatchEvent ''change'', DispatchEvent ''input'']"
    using additive_press[of ?st ?a 11] by (auto simp: resolveTarget_example)
  obtain sb where sb: "handlePointerDown ?st ?b = Inr sb" "isSelected sb 12"
      "\<forall>c. c \<noteq> 12 \<longrightarrow> isSelected sb c = isSelected ?st c" "only_marker_changed ?st sb"
      "effects sb = [DispatchEvent ''change'', DispatchEvent ''input'']"
    using additive_press[of ?st ?b 12] by (auto simp: resolveTarget_example)
  have "selectedChildren sa = [13]"
    using sa(2,3,4) by (simp add: selectedChildren_def only_marker_changed_def)
  moreover have "selectedChildren sb = [11, 12, 13]"
    using sb(2,3,4) by (simp add: selectedChildren_def only_marker_changed_def)
  ultimately show ?thesis
    using sa(1,5) sb(1,5) by simp
qed


text \<open>
  Claim C4: a press on a descendant of a child is resolved to the child it lies in, at
  whatever depth, so that the marker is only ever put on children of the control. The
  handler climbs one level only. Element 17 lies in element 16, which lies in the child
  12: a press on element 17 resolves to element 16, which is not a child of the control.
  The handler deselects the selected child 11, puts the marker on element 16, leaves the
  child 12 unselected and notifies.
\<close>

theorem deep_press_marks_non_child:
  "parentElement (example_control [11] False) 17 = Some 16 \<and>
   parentElement (example_control [11] False) 16 = Some 12 \<and>
   parentElement (example_control [11] False) 12 = Some (host (example_control [11] False)) \<and>
   12 \<in> set (children (example_control [11] False)) \<and>
   16 \<notin> set (children (example_control [11] False)) \<and>
   resolveTarget (example_control [11] False) 17 = Some 16 \<and>
   (\<exists>st'. handlePointerDown (example_control [11] False)
            \<lparr>target = 17, shiftKey = False, defaultPrevented = False\<rparr> = Inr st' \<and>
      isSelected st' 16 \<and> \<not> isSelected st' 12 \<and> selectedChildren st' = [] \<and>
      effects st' = [DispatchEvent ''change'', DispatchEvent ''input''])"
proof -
  let ?st = "example_control [11] False"
  let ?ev = "\<lparr>target = 17, shiftKey = False, defaultPrevented = False\<rparr>"
  have "handlePointerDown ?st ?ev
      = Inr (notifySelectionChange (addToSelection (clearSelection ?st) 16))"
    by (simp add: handlePointerDown_exclusive[where t = 16] resolveTarget_example)
  moreover have "selectedChildren (addToSelection (clearSelection ?st) 16) = []"
    by (simp add: selectedChildren_add_after_clear)
  ultimately show ?thesis
    by (simp add: resolveTarget_example example_parent_def)
qed

section \<open>Key presses\<close>

lemma selectedIndex_empty_control: "selectedIndex empty_control = -1"
  by (simp add: selectedIndex_none_iff empty_control_def)

text \<open>
  Claim C5: an event that leaves the selection as it was dispatches neither
  \<^verbatim>\<open>change\<close> nor \<^verbatim>\<open>input\<close>, in particular the key Home on a control without
  children. For Home the handler takes \<open>0\<close> as the new index without looking at the
  number of children: on a control without children \<open>0\<close> differs from the current
  index \<open>-1\<close>, the assignment selects nothing, and both events are dispatched.
\<close>

theorem home_on_empty_control_notifies:
  "children empty_control = [] \<and>
   selectedChildren empty_control = [] \<and>
   newSelectionIndex ar empty_control ''Home'' = Some 0 \<and>
   selectedIndex empty_control = -1 \<and>
   selectedChildren (keyHandler ar empty_control ''Home'') = [] \<and>
   attributes (keyHandler ar empty_control ''Home'') = attributes empty_control \<and>
   effects (keyHandler ar empty_control ''Home'') =
     [PreventDefault, DispatchEvent ''change'', DispatchEvent ''input'']"
proof -
  have c: "children empty_control = []" "effects empty_control = []"
    by (simp_all add: empty_control_def)
  then have s: "selectedChildren empty_control = []"
    by (simp add: selectedChildren_def)
  have n: "newSelectionIndex ar empty_control ''Home'' = Some 0"
    by (simp add: newSelectionIndex_def)
  let ?st1 = "empty_control\<lparr>effects := effects empty_control @ [PreventDefault]\<rparr>"
  have set: "set_selectedIndex ?st1 0 = ?st1"
    by (simp add: set_selectedIndex_def clearSelection_idle s c)
  have "selectedChild ?st1 = None"
    by (simp add: selectedChild_def selectedIndex_empty_control)
  then have "keyHandler ar empty_control ''Home'' = notifySelectionChange ?st1"
    by (simp add: keyHandler_def n selectedIndex_empty_control set scrollSelectionIntoView_def)
  then show ?thesis
    using c s n by (simp add: selectedIndex_empty_control)
qed

section \<open>Arrow keys\<close>

lemma newSelectionIndex_forward:
  assumes "k = ''ArrowRight'' \<or> k = ''ArrowDown''"
  shows "newSelectionIndex ar st k = Some (min (selectedIndex st + 1) (length_of st - 1))"
  using assms selectedIndex_range[of st]
  by (auto simp: newSelectionIndex_def length_of_def Let_def)

lemma newSelectionIndex_backward:
  assumes "k = ''ArrowLeft'' \<or> k = ''ArrowUp''"
  shows "newSelectionIndex ar st k =
     Some (if selectedIndex st > 0 then selectedIndex st - 1 else selectedIndex st)"
  using assms by (auto simp: newSelectionIndex_def Let_def)

lemma keyHandler_commit:
  assumes "newSelectionIndex ar st k = Some t"
  shows "keyHandler ar st k =
     (if t \<noteq> selectedIndex st then
        notifySelectionChange (scrollSelectionIntoView
          (set_selectedIndex (st\<lparr>effects := effects st @ [PreventDefault]\<rparr>) t))
      else st\<lparr>effects := effects st @ [PreventDefault]\<rparr>)"
  using assms by (simp add: keyHandler_def)

lemma keyHandler_moves:
  assumes "newSelectionIndex ar st k = Some t" and "t \<noteq> selectedIndex st"
    and "distinct (children st)" and "0 \<le> t" and "t < length_of st"
  shows "selectedChildren (keyHandler ar st k) = [children st ! nat t]"
    and "selectedIndex (keyHandler ar st k) = t"
    and "effects (keyHandler ar st k) =
           effects st @ [PreventDefault, ScrollIntoView (children st ! nat t),
                         DispatchEvent ''change'', DispatchEvent ''input'']"
proof -
  let ?st1 = "st\<lparr>effects := effects st @ [PreventDefault]\<rparr>"
  have eq: "keyHandler ar st k =
      notifySelectionChange (scrollSelectionIntoView (set_selectedIndex ?st1 t))"
    using assms(1,2) by (simp add: keyHandler_commit)
  have d: "distinct (children ?st1)" "t < int (length (children ?st1))"
    using assms(3,5) by (simp_all add: length_of_def)
  note s = set_selectedIndex_in_range[OF d(1) assms(4) d(2)]
  show "selectedChildren (keyHandler ar st k) = [children st ! nat t]"
    using s(1) by (simp add: eq)
  show "selectedIndex (keyHandler ar st k) = t"
    using s(2) by (simp add: eq)
  show "effects (keyHandler ar st k) =
           effects st @ [PreventDefault, ScrollIntoView (children st ! nat t),
                         DispatchEvent ''change'', DispatchEvent ''input'']"
    using s(3) by (simp add: eq scrollSelectionIntoView_def)
qed

lemma keyHandler_stays:
  assumes "newSelectionIndex ar st k = Some (selectedIndex st)"
  shows "keyHandler ar st k = st\<lparr>effects := effects st @ [PreventDefault]\<rparr>"
  using assms by (simp add: keyHandler_commit)

lemma keyHandler_children [simp]: "children (keyHandler ar st k) = children st"
  by (simp add: keyHandler_def Let_def split: option.splits)

lemma arrowDown_step:
  assumes "distinct (children st)"
  shows "selectedIndex (keyHandler ar st ''ArrowDown'') =
           min (selectedIndex st + 1) (length_of st - 1)"
proof (cases "selectedIndex st < length_of st - 1")
  case True
  have n: "newSelectionIndex ar st ''ArrowDown'' = Some (selectedIndex st + 1)"
    using True by (simp add: newSelectionIndex_forward)
  have "selectedIndex (keyHandler ar st ''ArrowDown'') = selectedIndex st + 1"
    using True selectedIndex_range[of st]
    by (intro keyHandler_moves(2)[OF n _ assms]) simp_all
  with True show ?thesis by simp
next
  case False
  then have eq: "selectedIndex st = length_of st - 1"
    using selectedIndex_range[of st] by (simp add: length_of_def)
  then have "newSelectionIndex ar st ''ArrowDown'' = Some (selectedIndex st)"
    by (simp add: newSelectionIndex_forward)
  then show ?thesis
    using eq by (simp add: keyHandler_stays)
qed

lemma arrowDown_repeated:
  assumes "distinct (children st)"
  shows "children (((\<lambda>s. keyHandler ar s ''ArrowDown'') ^^ m) st) = children st \<and>
         selectedIndex (((\<lambda>s. keyHandler ar s ''ArrowDown'') ^^ m) st) =
           min (selectedIndex st + int m) (length_of st - 1)"
proof (induction m)
  case 0
  then show ?case
    using selectedIndex_range[of st] by (simp add: length_of_def)
next
  case (Suc m)
  let ?s = "((\<lambda>s. keyHandler ar s ''ArrowDown'') ^^ m) st"
  have d: "distinct (children ?s)" using Suc assms by simp
  have l: "length_of ?s = length_of st" using Suc by (simp add: length_of_def)
  show ?case
    using Suc arrowDown_step[OF d] by (simp add: l)
qed


lemma selectedIndex_example_control:
  "selectedIndex (example_control [] multi) = -1"
  "selectedIndex (example_control [11] multi) = 0"
  "selectedIndex (example_control [15] multi) = 4"
  "selectedIndex (example_control [12, 14, 15] multi) = 1"
  by (simp_all add: selectedIndex_def selectedIndex_loop.simps)

lemma length_of_example_control [simp]: "length_of (example_control sel multi) = 5"
  by (simp add: length_of_def)

text \<open>
  Claim C6, as stated: ArrowLeft and ArrowUp move the target to \<open>selectedIndex - 1\<close>
  clamped to not go below \<open>0\<close>, in every state. With no child selected the index is
  \<open>-1\<close> and the clamped value is \<open>0\<close>, the first child; the handler decrements only
  an index above \<open>0\<close>, so it keeps \<open>-1\<close>, selects nothing and notifies nobody.
\<close>

theorem arrow_keys_counterexample:
  "\<forall>ar. selectedIndex (example_control [] False) = -1 \<and>
   max (selectedIndex (example_control [] False) - 1) 0 = 0 \<and>
   newSelectionIndex ar (example_control [] False) ''ArrowUp'' = Some (-1) \<and>
   newSelectionIndex ar (example_control [] False) ''ArrowLeft'' = Some (-1) \<and>
   selectedChildren (keyHandler ar (example_control [] False) ''ArrowUp'') = [] \<and>
   effects (keyHandler ar (example_control [] False) ''ArrowUp'') = [PreventDefault]"
proof -
  have "selectedIndex (example_control [] False) = -1 \<and>
   max (selectedIndex (example_control [] False) - 1) 0 = 0 \<and>
   newSelectionIndex ar (example_control [] False) ''ArrowUp'' = Some (-1) \<and>
   newSelectionIndex ar (example_control [] False) ''ArrowLeft'' = Some (-1) \<and>
   selectedChildren (keyHandler ar (example_control [] False) ''ArrowUp'') = [] \<and>
   effects (keyHandler ar (example_control [] False) ''ArrowUp'') = [PreventDefault]" for ar
  proof -
    let ?st = "example_control [] False"
    have n: "newSelectionIndex ar ?st ''ArrowUp'' = Some (-1)"
        "newSelectionIndex ar ?st ''ArrowLeft'' = Some (-1)"
      by (simp_all add: newSelectionIndex_backward selectedIndex_example_control)
    then have "keyHandler ar ?st ''ArrowUp'' = ?st\<lparr>effects := effects ?st @ [PreventDefault]\<rparr>"
      by (simp add: keyHandler_stays selectedIndex_example_control)
    then show ?thesis
      using n by (simp add: selectedIndex_example_control selectedChildren_example_control)
  qed
  then show ?thesis by blast
qed

text \<open>
  Claim C6, amended: ArrowRight and ArrowDown move the target to \<open>selectedIndex + 1\<close>
  clamped to not exceed \<open>length - 1\<close>; ArrowLeft and ArrowUp move it to
  \<open>selectedIndex - 1\<close> when \<open>selectedIndex\<close> is above \<open>0\<close> and leave it where it
  is otherwise (at \<open>0\<close>, and at \<open>-1\<close> when nothing is selected). A target that
  differs from the current index becomes the only selected child, with one scroll
  request, one \<^verbatim>\<open>change\<close> and one \<^verbatim>\<open>input\<close> event; a target equal to the current
  index changes nothing and notifies nobody. In particular ArrowDown with nothing
  selected on a control with children selects index \<open>0\<close> with one \<^verbatim>\<open>change\<close> and
  one \<^verbatim>\<open>input\<close> event, \<open>m\<close> presses of ArrowDown lead to index
  \<open>selectedIndex + m\<close> clamped to \<open>length - 1\<close>, and a press at the last index
  changes nothing and notifies nobody.
\<close>

theorem arrow_keys:
  assumes "distinct (children st)"
  shows "(k = ''ArrowRight'' \<or> k = ''ArrowDown'' \<longrightarrow>
            newSelectionIndex ar st k = Some (min (selectedIndex st + 1) (length_of st - 1))) \<and>
         (k = ''ArrowLeft'' \<or> k = ''ArrowUp'' \<longrightarrow>
            newSelectionIndex ar st k =
              Some (if selectedIndex st > 0 then selectedIndex st - 1 else selectedIndex st)) \<and>
         (k = ''ArrowRight'' \<or> k = ''ArrowDown'' \<or> k = ''ArrowLeft'' \<or> k = ''ArrowUp'' \<longrightarrow>
            (\<exists>t. newSelectionIndex ar st k = Some t \<and>
               (t \<noteq> selectedIndex st \<longrightarrow>
                  selectedChildren (keyHandler ar st k) = [children st ! nat t] \<and>
                  selectedIndex (keyHandler ar st k) = t \<and>
                  effects (keyHandler ar st k) =
                    effects st @ [PreventDefault, ScrollIntoView (children st ! nat t),
                                  DispatchEvent ''change'', DispatchEvent ''input'']) \<and>
               (t = selectedIndex st \<longrightarrow>
                  keyHandler ar st k = st\<lparr>effects := effects st @ [PreventDefault]\<rparr>))) \<and>
         (selectedIndex st = -1 \<and> children st \<noteq> [] \<longrightarrow>
            selectedChildren (keyHandler ar st ''ArrowDown'') = [children st ! 0] \<and>
            selectedIndex (keyHandler ar st ''ArrowDown'') = 0 \<and>
            effects (keyHandler ar st ''ArrowDown'') =
              effects st @ [PreventDefault, ScrollIntoView (children st ! 0),
                            DispatchEvent ''change'', DispatchEvent ''input'']) \<and>
         selectedIndex (((\<lambda>s. keyHandler ar s ''ArrowDown'') ^^ m) st) =
           min (selectedIndex st + int m) (length_of st - 1) \<and>
         (selectedIndex st = length_of st - 1 \<longrightarrow>
            keyHandler ar st ''ArrowDown'' = st\<lparr>effects := effects st @ [PreventDefault]\<rparr>)"
proof -
  have arrows: "\<exists>t. newSelectionIndex ar st k = Some t \<and>
               (t \<noteq> selectedIndex st \<longrightarrow>
                  selectedChildren (keyHandler ar st k) = [children st ! nat t] \<and>
                  selectedIndex (keyHandler ar st k) = t \<and>
                  effects (keyHandler ar st k) =
                    effects st @ [PreventDefault, ScrollIntoView (children st ! nat t),
                                  DispatchEvent ''change'', DispatchEvent ''input'']) \<and>
               (t = selectedIndex st \<longrightarrow>
                  keyHandler ar st k = st\<lparr>effects := effects st @ [PreventDefault]\<rparr>)"
    if k: "k = ''ArrowRight'' \<or> k = ''ArrowDown'' \<or> k = ''ArrowLeft'' \<or> k = ''ArrowUp''"
  proof -
    consider (fwd) "k = ''ArrowRight'' \<or> k = ''ArrowDown''"
      | (bwd) "k = ''ArrowLeft'' \<or> k = ''ArrowUp''"
      using k by blast
    then have "\<exists>t. newSelectionIndex ar st k = Some t \<and>
        (t \<noteq> selectedIndex st \<longrightarrow> 0 \<le> t \<and> t < length_of st)"
    proof cases
      case fwd
      have "min (selectedIndex st + 1) (length_of st - 1) \<noteq> selectedIndex st \<longrightarrow>
          0 \<le> min (selectedIndex st + 1) (length_of st - 1) \<and>
          min (selectedIndex st + 1) (length_of st - 1) < length_of st"
        using selectedIndex_range[of st] by (auto simp: min_def length_of_def)
      with newSelectionIndex_forward[OF fwd, where ar = ar and st = st] show ?thesis by blast
    next
      case bwd
      have "selectedIndex st > 0 \<longrightarrow>
          0 \<le> selectedIndex st - 1 \<and> selectedIndex st - 1 < length_of st"
        using selectedIndex_range[of st] by (auto simp: length_of_def)
      with newSelectionIndex_backward[OF bwd, where ar = ar and st = st] show ?thesis by auto
    qed
    then obtain t where t: "newSelectionIndex ar st k = Some t"
      and r: "t \<noteq> selectedIndex st \<longrightarrow> 0 \<le> t \<and> t < length_of st"
      by blast
    show ?thesis
      using keyHandler_moves[OF t _ assms] keyHandler_stays[where ar = ar and st = st and k = k] t r by auto
  qed
  have first: "selectedChildren (keyHandler ar st ''ArrowDown'') = [children st ! 0] \<and>
            selectedIndex (keyHandler ar st ''ArrowDown'') = 0 \<and>
            effects (keyHandler ar st ''ArrowDown'') =
              effects st @ [PreventDefault, ScrollIntoView (children st ! 0),
                            DispatchEvent ''change'', DispatchEvent ''input'']"
    if n: "selectedIndex st = -1" "children st \<noteq> []"
  proof -
    have t: "newSelectionIndex ar st ''ArrowDown'' = Some 0"
      using n by (simp add: newSelectionIndex_forward length_of_def)
    show ?thesis
      using keyHandler_moves[OF t _ assms] n by (simp add: length_of_def)
  qed
  have last: "keyHandler ar st ''ArrowDown'' = st\<lparr>effects := effects st @ [PreventDefault]\<rparr>"
    if "selectedIndex st = length_of st - 1"
    using that by (simp add: keyHandler_stays newSelectionIndex_forward)
  have fwd: "k = ''ArrowRight'' \<or> k = ''ArrowDown'' \<longrightarrow>
      newSelectionIndex ar st k = Some (min (selectedIndex st + 1) (length_of st - 1))"
    using newSelectionIndex_forward[where ar = ar and st = st and k = k] by blast
  have bwd: "k = ''ArrowLeft'' \<or> k = ''ArrowUp'' \<longrightarrow>
      newSelectionIndex ar st k =
        Some (if selectedIndex st > 0 then selectedIndex st - 1 else selectedIndex st)"
    using newSelectionIndex_backward[where ar = ar and st = st and k = k] by blast
  have rep: "selectedIndex (((\<lambda>s. keyHandler ar s ''ArrowDown'') ^^ m) st) =
      min (selectedIndex st + int m) (length_of st - 1)"
    using arrowDown_repeated[OF assms, where ar = ar and m = m] by blast
  from fwd bwd arrows first rep last show ?thesis
    by (intro conjI impI) (assumption | erule (1) mp | blast)+
qed


theorem arrow_keys_witness:
  "\<forall>ar. selectedIndex (example_control [] False) = -1 \<and>
   selectedChildren (keyHandler ar (example_control [] False) ''ArrowDown'') = [11] \<and>
   effects (keyHandler ar (example_control [] False) ''ArrowDown'') =
     [PreventDefault, ScrollIntoView 11, DispatchEvent ''change'', DispatchEvent ''input''] \<and>
   selectedIndex (((\<lambda>s. keyHandler ar s ''ArrowDown'') ^^ 7) (example_control [11] False)) = 4 \<and>
   selectedIndex (example_control [15] False) = 4 \<and>
   keyHandler ar (example_control [15] False) ''ArrowDown'' =
     (example_control [15] False)\<lparr>effects := [PreventDefault]\<rparr> \<and>
   newSelectionIndex ar (example_control [15] False) ''ArrowUp'' = Some 3 \<and>
   newSelectionIndex ar (example_control [11] False) ''ArrowLeft'' = Some 0"
proof -
  have "selectedIndex (example_control [] False) = -1 \<and>
   selectedChildren (keyHandler ar (example_control [] False) ''ArrowDown'') = [11] \<and>
   effects (keyHandler ar (example_control [] False) ''ArrowDown'') =
     [PreventDefault, ScrollIntoView 11, DispatchEvent ''change'', DispatchEvent ''input''] \<and>
   selectedIndex (((\<lambda>s. keyHandler ar s ''ArrowDown'') ^^ 7) (example_control [11] False)) = 4 \<and>
   selectedIndex (example_control [15] False) = 4 \<and>
   keyHandler ar (example_control [15] False) ''ArrowDown'' =
     (example_control [15] False)\<lparr>effects := [PreventDefault]\<rparr> \<and>
   newSelectionIndex ar (example_control [15] False) ''ArrowUp'' = Some 3 \<and>
   newSelectionIndex ar (example_control [11] False) ''ArrowLeft'' = Some 0" for ar
  proof -
    have d: "distinct (children (example_control sel False))" for sel
      by simp
    note A = arrow_keys[OF d[of "[]"], where ar = ar and k = "''ArrowDown''" and m = 0]
    note B = arrow_keys[OF d[of "[11]"], where ar = ar and k = "''ArrowDown''" and m = 7]
    note C = arrow_keys[OF d[of "[15]"], where ar = ar and k = "''ArrowUp''" and m = 0]
    note D = arrow_keys[OF d[of "[11]"], where ar = ar and k = "''ArrowLeft''" and m = 0]
    have "selectedChildren (keyHandler ar (example_control [] False) ''ArrowDown'') = [11] \<and>
        effects (keyHandler ar (example_control [] False) ''ArrowDown'') =
          [PreventDefault, ScrollIntoView 11, DispatchEvent ''change'', DispatchEvent ''input'']"
      using A by (simp add: selectedIndex_example_control)
    moreover have "selectedIndex
        (((\<lambda>s. keyHandler ar s ''ArrowDown'') ^^ 7) (example_control [11] False)) = 4"
      using B by (simp add: selectedIndex_example_control)
    moreover have "keyHandler ar (example_control [15] False) ''ArrowDown'' =
        (example_control [15] False)\<lparr>effects := [PreventDefault]\<rparr>"
      using C by (simp add: selectedIndex_example_control)
    moreover have "newSelectionIndex ar (example_control [15] False) ''ArrowUp'' = Some 3"
      using C by (simp add: selectedIndex_example_control)
    moreover have "newSelectionIndex ar (example_control [11] False) ''ArrowLeft'' = Some 0"
      using D by (simp add: selectedIndex_example_control)
    ultimately show ?thesis
      by (simp add: selectedIndex_example_control)
  qed
  then show ?thesis by blast
qed

section \<open>Leaving multi-selection mode\<close>

lemma selectedChildren_map_selectedIndices:
  "selectedChildren st = map (nth (children st)) (selectedIndices st)"
proof -
  have "filter (isSelected st) (map (nth (children st)) [0 ..< length (children st)])
      = map (nth (children st)) (selectedIndices st)"
    by (simp add: selectedIndices_def filter_map comp_def)
  then show ?thesis
    by (simp add: selectedChildren_def map_nth)
qed

lemma find_filter_hd:
  "find P xs = (case filter P xs of [] \<Rightarrow> None | x # _ \<Rightarrow> Some x)"
  by (induction xs) auto

lemma selectedIndex_selectedIndices:
  "selectedIndex st = (case selectedIndices st of [] \<Rightarrow> -1 | i # _ \<Rightarrow> int i)"
  by (simp add: selectedIndex_find selectedIndices_def find_filter_hd split: list.splits)

lemma selectedIndices_single:
  assumes "distinct (children st)" and "i < length (children st)"
    and "\<forall>c \<in> set (children st). isSelected st c \<longleftrightarrow> c = children st ! i"
  shows "selectedIndices st = [i]"
proof -
  have "filter (\<lambda>j. isSelected st (children st ! j)) [0 ..< length (children st)]
      = filter (\<lambda>j. j = i) [0 ..< length (children st)]"
    using assms by (intro filter_cong) (auto simp: nth_eq_iff_index_eq)
  then show ?thesis
    using assms(2) by (simp add: selectedIndices_def filter_eq_distinct)
qed

lemma attributeChangedCallback_fields [simp]:
  "host (attributeChangedCallback st a old new) = host st"
  "children (attributeChangedCallback st a old new) = children st"
  "parentElement (attributeChangedCallback st a old new) = parentElement st"
  "effects (attributeChangedCallback st a old new) = effects st"
  by (simp_all add: attributeChangedCallback_def Let_def)

lemma remove_multiple:
  "attributeChangedCallback st ''multiple'' old None =
     (if selectedIndex st > -1
      then addToSelection (clearSelection st) (children st ! nat (selectedIndex st))
      else st)\<lparr>allowMultipeSelections := False\<rparr>"
  by (simp add: attributeChangedCallback_def Let_def)

lemma isSelected_allowMultipeSelections [simp]:
  "isSelected (st\<lparr>allowMultipeSelections := b\<rparr>) c = isSelected st c"
  by (simp add: isSelected_def)

lemma selectedChildren_allowMultipeSelections [simp]:
  "selectedChildren (st\<lparr>allowMultipeSelections := b\<rparr>) = selectedChildren st"
  by (simp add: selectedChildren_def isSelected_def[abs_def])

lemma selectedIndices_allowMultipeSelections [simp]:
  "selectedIndices (st\<lparr>allowMultipeSelections := b\<rparr>) = selectedIndices st"
  by (simp add: selectedIndices_def)

text \<open>
  Claim C7. Removing the attribute \<^verbatim>\<open>multiple\<close> leaves exactly one child selected, the
  one with the lowest selected index, when at least one child was selected, and leaves
  the selection empty when none was: the selected indices afterwards are the first of
  the selected indices before, which are in ascending order. From the selected indices
  1, 3 and 4 the result is the index 1 alone.
\<close>

theorem remove_multiple_normalizes:
  assumes "distinct (children st)"
  shows "sorted_wrt (<) (selectedIndices st) \<and>
         selectedIndices (attributeChangedCallback st ''multiple'' old None)
           = take 1 (selectedIndices st) \<and>
         selectedChildren (attributeChangedCallback st ''multiple'' old None)
           = take 1 (selectedChildren st) \<and>
         (selectedChildren st \<noteq> [] \<longrightarrow>
            selectedChildren (attributeChangedCallback st ''multiple'' old None)
              = [children st ! nat (selectedIndex st)]) \<and>
         (selectedChildren st = [] \<longrightarrow>
            selectedChildren (attributeChangedCallback st ''multiple'' old None) = []) \<and>
         \<not> allowMultipeSelections (attributeChangedCallback st ''multiple'' old None)"
proof (cases "selectedIndex st = -1")
  case True
  have sorted: "sorted_wrt (<) (selectedIndices st)"
    by (simp add: selectedIndices_def sorted_wrt_filter)
  from True have "selectedChildren st = []" "selectedIndices st = []"
    by (simp_all add: selectedChildren_empty_iff selectedIndex_selectedIndices
        split: list.splits)
  with True show ?thesis
    by (simp add: remove_multiple)
next
  case False
  have sorted: "sorted_wrt (<) (selectedIndices st)"
    by (simp add: selectedIndices_def sorted_wrt_filter)
  let ?i = "nat (selectedIndex st)"
  let ?st' = "addToSelection (clearSelection st) (children st ! ?i)"
  have i: "0 \<le> selectedIndex st" "?i < length (children st)"
    using selectedIndex_first(1,2)[OF False] by simp_all
  have eq: "attributeChangedCallback st ''multiple'' old None
      = ?st'\<lparr>allowMultipeSelections := False\<rparr>"
    using False i(1) by (simp add: remove_multiple)
  obtain js where js: "selectedIndices st = ?i # js"
    using False i(1) by (auto simp: selectedIndex_selectedIndices split: list.splits)
  have "selectedIndices ?st' = [?i]"
    using assms i(2) by (intro selectedIndices_single) auto
  then have a: "selectedIndices ?st' = take 1 (selectedIndices st)"
    by (simp add: js)
  have b: "selectedChildren ?st' = [children st ! ?i]"
    using assms i(2) by (simp add: selectedChildren_add_after_clear)
  have c: "selectedChildren st = children st ! ?i # map (nth (children st)) js"
    by (simp add: selectedChildren_map_selectedIndices js)
  show ?thesis
    using sorted by (simp add: eq a b c)
qed

lemma selectedIndices_example_control:
  "selectedIndices (example_control [12, 14, 15] True) = [1, 3, 4]"
  "selectedIndices (example_control [] True) = []"
  by (simp_all add: selectedIndices_def upt_conv_Cons)

theorem remove_multiple_normalizes_witness:
  "selectedIndices (example_control [12, 14, 15] True) = [1, 3, 4] \<and>
   selectedIndices
     (attributeChangedCallback (example_control [12, 14, 15] True) ''multiple'' (Some '''') None)
     = [1] \<and>
   selectedChildren
     (attributeChangedCallback (example_control [12, 14, 15] True) ''multiple'' (Some '''') None)
     = [12] \<and>
   selectedChildren
     (attributeChangedCallback (example_control [] True) ''multiple'' (Some '''') None) = []"
proof -
  have d: "distinct (children (example_control sel True))" for sel
    by simp
  note A = remove_multiple_normalizes[OF d, of "[12, 14, 15]" "Some ''''"]
  note B = remove_multiple_normalizes[OF d, of "[]" "Some ''''"]
  have "selectedIndices
     (attributeChangedCallback (example_control [12, 14, 15] True) ''multiple'' (Some '''') None)
     = [1]"
    using A by (simp add: selectedIndices_example_control)
  moreover have "selectedChildren
     (attributeChangedCallback (example_control [12, 14, 15] True) ''multiple'' (Some '''') None)
     = [12]"
    using A by (simp add: selectedChildren_example_control)
  moreover have "selectedChildren
     (attributeChangedCallback (example_control [] True) ''multiple'' (Some '''') None) = []"
    using B by (simp add: selectedChildren_example_control)
  ultimately show ?thesis
    by (simp add: selectedIndices_example_control)
qed

section \<open>What the operations leave alone\<close>

lemma only_marker_changed_refl [simp]: "only_marker_changed st st"
  by (simp add: only_marker_changed_def)

lemma only_marker_changed_trans:
  "only_marker_changed a b \<Longrightarrow> only_marker_changed b c \<Longrightarrow> only_marker_changed a c"
  by (simp add: only_marker_changed_def)

lemma only_marker_changed_effects [simp]:
  "only_marker_changed st (st'\<lparr>effects := e\<rparr>) = only_marker_changed st st'"
  by (simp add: only_marker_changed_def)

lemma only_marker_changed_allowMultipeSelections [simp]:
  "only_marker_changed st (st'\<lparr>allowMultipeSelections := b\<rparr>) = only_marker_changed st st'"
  by (simp add: only_marker_changed_def)

lemma only_marker_changed_notify [simp]:
  "only_marker_changed st (notifySelectionChange st') = only_marker_changed st st'"
  by (simp add: only_marker_changed_def)

lemma only_marker_changed_scroll [simp]:
  "only_marker_changed st (scrollSelectionIntoView st') = only_marker_changed st st'"
  by (simp add: only_marker_changed_def)

lemma only_marker_changed_add:
  "only_marker_changed st st' \<Longrightarrow> only_marker_changed st (addToSelection st' e)"
  by (simp add: only_marker_changed_def attributes_addToSelection)

lemma only_marker_changed_remove:
  "only_marker_changed st st' \<Longrightarrow> only_marker_changed st (removeFromSelection st' e)"
  by (simp add: only_marker_changed_def attributes_removeFromSelection)

lemma only_marker_changed_clear:
  "only_marker_changed st st' \<Longrightarrow> only_marker_changed st (clearSelection st')"
  by (simp add: only_marker_changed_def attributes_clearSelection)

lemma only_marker_changed_set_selectedIndex:
  "only_marker_changed st (set_selectedIndex st v)"
  by (simp add: set_selectedIndex_def Let_def only_marker_changed_add only_marker_changed_clear)

lemma only_marker_changed_set_selectedIndex':
  "only_marker_changed st st' \<Longrightarrow> only_marker_changed st (set_selectedIndex st' v)"
  using only_marker_changed_set_selectedIndex only_marker_changed_trans by blast

lemma only_marker_changed_set_selectedChild:
  "only_marker_changed st (set_selectedChild st element)"
  using set_selectedChild_cases[of st element]
  by (auto simp: only_marker_changed_add only_marker_changed_clear)

lemma only_marker_changed_keyHandler:
  "only_marker_changed st (keyHandler ar st k)"
  by (simp add: keyHandler_def Let_def only_marker_changed_set_selectedIndex'
      split: option.splits)

lemma only_marker_changed_handlePointerDown:
  "handlePointerDown st ev = Inr st' \<Longrightarrow> only_marker_changed st st'"
  by (auto simp: handlePointerDown_def Let_def only_marker_changed_add
      only_marker_changed_remove only_marker_changed_clear
      split: if_splits option.splits)

lemma only_marker_changed_attributeChangedCallback:
  "only_marker_changed st (attributeChangedCallback st a old new)"
  by (simp add: attributeChangedCallback_def Let_def only_marker_changed_add
      only_marker_changed_clear)

lemma only_marker_changed_perform:
  "only_marker_changed st (perform ar st op)"
  by (cases op)
    (auto simp: only_marker_changed_set_selectedIndex only_marker_changed_set_selectedChild
      only_marker_changed_keyHandler only_marker_changed_handlePointerDown
      split: sum.splits)

lemma only_marker_changed_run:
  "only_marker_changed st (run ar st ops)"
proof (induction ops rule: rev_induct)
  case Nil
  then show ?case by (simp add: run_def)
next
  case (snoc op ops)
  have "run ar st (ops @ [op]) = perform ar (run ar st ops) op"
    by (simp add: run_def)
  with snoc only_marker_changed_perform[where ar = ar and st = "run ar st ops" and op = op] show ?case
    by (auto intro: only_marker_changed_trans)
qed

text \<open>
  Claim C10. Every operation on the selection (the two property setters, the keyboard
  handler, the pointer handler, the normalization on leaving multi-selection mode), and
  every sequence of them, changes nothing but the selection marker: the host, the list of
  its children, the parent of every element and every attribute other than the marker,
  of every element, are as before. So \<^verbatim>\<open>length\<close> and the index of every child are
  unchanged.
\<close>

theorem operations_change_marker_only:
  "only_marker_changed st (set_selectedIndex st v) \<and>
   only_marker_changed st (set_selectedChild st element) \<and>
   only_marker_changed st (keyHandler ar st k) \<and>
   (\<forall>st'. handlePointerDown st ev = Inr st' \<longrightarrow> only_marker_changed st st') \<and>
   only_marker_changed st (perform ar st op) \<and>
   only_marker_changed st (attributeChangedCallback st a old new) \<and>
   only_marker_changed st (run ar st ops) \<and>
   children (run ar st ops) = children st \<and>
   length_of (run ar st ops) = length_of st \<and>
   children (attributeChangedCallback st a old new) = children st \<and>
   length_of (attributeChangedCallback st a old new) = length_of st"
proof -
  have "only_marker_changed st (run ar st ops)"
    by (rule only_marker_changed_run)
  then have "children (run ar st ops) = children st"
    by (simp add: only_marker_changed_def)
  then show ?thesis
    using only_marker_changed_handlePointerDown[of st ev]
    by (simp add: only_marker_changed_set_selectedIndex only_marker_changed_set_selectedChild
        only_marker_changed_keyHandler only_marker_changed_attributeChangedCallback
        only_marker_changed_run only_marker_changed_perform length_of_def)
qed

theorem operations_change_marker_only_witness:
  "\<forall>ar. children (run ar (example_control [11] True)
      [PointerDown \<lparr>target = 12, shiftKey = True, defaultPrevented = False\<rparr>,
       KeyDown ''End'', AssignSelectedChild None, AssignSelectedIndex 2])
     = [11, 12, 13, 14, 15] \<and>
   attributes (run ar (example_control [11] True)
      [PointerDown \<lparr>target = 12, shiftKey = True, defaultPrevented = False\<rparr>,
       KeyDown ''End'', AssignSelectedChild None, AssignSelectedIndex 2]) 12 ''class''
     = Some ''item'' \<and>
   attributes (attributeChangedCallback (example_control [11] True)
      ''multiple'' (Some []) None) 11 ''class'' = Some ''item''"
proof -
  have "children (run ar (example_control [11] True)
      [PointerDown \<lparr>target = 12, shiftKey = True, defaultPrevented = False\<rparr>,
       KeyDown ''End'', AssignSelectedChild None, AssignSelectedIndex 2])
     = [11, 12, 13, 14, 15] \<and>
   attributes (run ar (example_control [11] True)
      [PointerDown \<lparr>target = 12, shiftKey = True, defaultPrevented = False\<rparr>,
       KeyDown ''End'', AssignSelectedChild None, AssignSelectedIndex 2]) 12 ''class''
     = Some ''item'' \<and>
   attributes (attributeChangedCallback (example_control [11] True)
      ''multiple'' (Some []) None) 11 ''class'' = Some ''item''" for ar
  proof -
    let ?st = "example_control [11] True"
    let ?ops = "[PointerDown \<lparr>target = 12, shiftKey = True, defaultPrevented = False\<rparr>,
         KeyDown ''End'', AssignSelectedChild None, AssignSelectedIndex 2]"
    note A = operations_change_marker_only[where ar = ar and st = ?st and a = "''multiple''"
      and old = "Some []" and new = None and ops = ?ops]
    have n: "''class'' \<noteq> selectedAttributeName"
      by (simp add: selectedAttributeName_def)
    have "only_marker_changed ?st (run ar ?st ?ops)"
      using A by blast
    then have "children (run ar ?st ?ops) = children ?st"
        "attributes (run ar ?st ?ops) 12 ''class'' = attributes ?st 12 ''class''"
      using n by (simp_all add: only_marker_changed_def)
    moreover have "only_marker_changed ?st
        (attributeChangedCallback ?st ''multiple'' (Some []) None)"
      using A by blast
    then have "attributes (attributeChangedCallback ?st ''multiple'' (Some []) None) 11 ''class''
        = attributes ?st 11 ''class''"
      using n by (simp add: only_marker_changed_def)
    ultimately show ?thesis
      by simp
  qed
  then show ?thesis by blast
qed

section \<open>Single selection\<close>

lemma at_most_one_selected_effects [simp]:
  "at_most_one_selected (st\<lparr>effects := e\<rparr>) = at_most_one_selected st"
  by (simp add: at_most_one_selected_def)

lemma at_most_one_selected_notify [simp]:
  "at_most_one_selected (notifySelectionChange st) = at_most_one_selected st"
  by (simp add: at_most_one_selected_def)

lemma at_most_one_selected_scroll [simp]:
  "at_most_one_selected (scrollSelectionIntoView st) = at_most_one_selected st"
  by (simp add: at_most_one_selected_def)

lemma at_most_one_keyHandler:
  assumes "distinct (children st)" and "at_most_one_selected st"
  shows "at_most_one_selected (keyHandler ar st k)"
proof (cases "newSelectionIndex ar st k")
  case None
  with assms(2) show ?thesis by (simp add: keyHandler_def)
next
  case (Some t)
  have "distinct (children (st\<lparr>effects := effects st @ [PreventDefault]\<rparr>))"
    using assms(1) by simp
  then show ?thesis
    using assms(2) by (simp add: keyHandler_commit[OF Some] at_most_one_set_selectedIndex)
qed

lemma at_most_one_handlePointerDown:
  assumes "distinct (children st)" and "at_most_one_selected st"
    and "\<not> allowMultipeSelections st" and "handlePointerDown st ev = Inr st'"
  shows "at_most_one_selected st'"
  using assms
  by (auto simp: handlePointerDown_def Let_def at_most_one_add_after_clear
      split: if_splits option.splits)

lemma allowMultipeSelections_perform [simp]:
  "allowMultipeSelections (perform ar st op) = allowMultipeSelections st"
proof (cases op)
  case (AssignSelectedChild element)
  then show ?thesis
    using set_selectedChild_cases[of st element] by auto
next
  case (KeyDown k)
  then show ?thesis
    by (simp add: keyHandler_def Let_def split: option.splits)
next
  case (PointerDown ev)
  then show ?thesis
    by (auto simp: handlePointerDown_def Let_def split: sum.splits if_splits option.splits)
qed simp

lemma children_perform [simp]: "children (perform ar st op) = children st"
  using only_marker_changed_perform[where ar = ar and st = st and op = op]
  by (simp add: only_marker_changed_def)

lemma at_most_one_perform:
  assumes "distinct (children st)" and "at_most_one_selected st"
    and "\<not> allowMultipeSelections st"
  shows "at_most_one_selected (perform ar st op)"
proof (cases op)
  case (AssignSelectedIndex v)
  then show ?thesis by (simp add: at_most_one_set_selectedIndex assms(1))
next
  case (AssignSelectedChild element)
  then show ?thesis by (simp add: at_most_one_set_selectedChild assms(1))
next
  case (KeyDown k)
  then show ?thesis by (simp add: at_most_one_keyHandler assms(1,2))
next
  case (PointerDown ev)
  then show ?thesis
    using at_most_one_handlePointerDown[OF assms(1,2,3), of ev] assms(2)
    by (simp split: sum.splits)
qed

lemma single_selection_run:
  assumes "distinct (children st)" and "at_most_one_selected st"
    and "\<not> allowMultipeSelections st"
  shows "distinct (children (run ar st ops)) \<and> at_most_one_selected (run ar st ops) \<and>
         \<not> allowMultipeSelections (run ar st ops)"
proof (induction ops rule: rev_induct)
  case Nil
  with assms show ?case by (simp add: run_def)
next
  case (snoc op ops)
  have "run ar st (ops @ [op]) = perform ar (run ar st ops) op"
    by (simp add: run_def)
  with snoc show ?case
    by (simp add: at_most_one_perform)
qed

text \<open>
  Claim C9. While multi-selection mode is disabled, at most one child carries the
  selection marker, whatever the operations: starting from a control in
  single-selection mode with at most one selected child, after each operation of any
  sequence of assignments to \<^verbatim>\<open>selectedIndex\<close> and \<^verbatim>\<open>selectedChild\<close>, key presses and
  pointer presses, at most one child is selected (and the mode is still disabled).
\<close>

theorem single_selection_invariant:
  assumes "\<not> allowMultipeSelections st" and "distinct (children st)"
    and "at_most_one_selected st"
  shows "\<forall>n \<le> length ops.
           length (selectedChildren (run ar st (take n ops))) \<le> 1 \<and>
           \<not> allowMultipeSelections (run ar st (take n ops))"
  using single_selection_run[OF assms(2,3,1)]
  by (simp add: at_most_one_selected_def)

theorem single_selection_invariant_witness:
  "\<forall>ar. \<not> allowMultipeSelections (example_control [12] False) \<and>
   selectedChildren (example_control [12] False) = [12] \<and>
   length (selectedChildren (run ar (example_control [12] False)
     [PointerDown \<lparr>target = 14, shiftKey = True, defaultPrevented = False\<rparr>,
      KeyDown ''ArrowDown'',
      AssignSelectedChild (Some 11),
      PointerDown \<lparr>target = 17, shiftKey = False, defaultPrevented = False\<rparr>,
      AssignSelectedIndex 3])) \<le> 1"
proof -
  have "\<not> allowMultipeSelections (example_control [12] False) \<and>
   selectedChildren (example_control [12] False) = [12] \<and>
   length (selectedChildren (run ar (example_control [12] False)
     [PointerDown \<lparr>target = 14, shiftKey = True, defaultPrevented = False\<rparr>,
      KeyDown ''ArrowDown'',
      AssignSelectedChild (Some 11),
      PointerDown \<lparr>target = 17, shiftKey = False, defaultPrevented = False\<rparr>,
      AssignSelectedIndex 3])) \<le> 1" for ar
  proof -
    let ?st = "example_control [12] False"
    let ?ops = "[PointerDown \<lparr>target = 14, shiftKey = True, defaultPrevented = False\<rparr>,
        KeyDown ''ArrowDown'',
        AssignSelectedChild (Some 11),
        PointerDown \<lparr>target = 17, shiftKey = False, defaultPrevented = False\<rparr>,
        AssignSelectedIndex 3]"
    have s: "selectedChildren ?st = [12]"
      by (simp add: selectedChildren_example_control)
    have h: "\<not> allowMultipeSelections ?st" "distinct (children ?st)" "at_most_one_selected ?st"
      by (simp_all add: at_most_one_selected_def s)
    have "length (selectedChildren (run ar ?st (take (length ?ops) ?ops))) \<le> 1"
      using single_selection_invariant[OF h, where ar = ar and ops = ?ops] by blast
    then show ?thesis
      using s by simp
  qed
  then show ?thesis by blast
qed

section \<open>When the handlers notify\<close>

lemma wf_dom_examples: "wf_dom (page_control selected)" "wf_dom empty_control"
  by (simp_all add: wf_dom_def page_control_def empty_control_def)

lemma isSelected_of_selectedChildren:
  assumes "children st' = children st" and "selectedChildren st' = selectedChildren st"
    and "c \<in> set (children st)"
  shows "isSelected st' c = isSelected st c"
proof -
  have "c \<in> set (selectedChildren st') \<longleftrightarrow> c \<in> set (selectedChildren st)"
    using assms(2) by simp
  then show ?thesis
    using assms(1,3) by (simp add: selectedChildren_def)
qed

lemma newSelectionIndex_range:
  assumes "newSelectionIndex ar st k = Some t" and "children st \<noteq> []"
  shows "t = selectedIndex st \<or> (0 \<le> t \<and> t < int (length (children st)))"
proof -
  have r: "-1 \<le> selectedIndex st" "selectedIndex st < int (length (children st))"
    using selectedIndex_range[of st] by simp_all
  have n: "selectedIndex st \<noteq> -1 \<Longrightarrow>
      0 \<le> getNextNonvisibleChildIndex ar st \<and>
      getNextNonvisibleChildIndex ar st < int (length (children st))"
    by (rule getNext_range)
  have p: "selectedIndex st \<noteq> -1 \<Longrightarrow>
      0 \<le> getPreviousNonvisibleChildIndex ar st \<and>
      getPreviousNonvisibleChildIndex ar st < int (length (children st))"
    by (rule getPrevious_range)
  have m: "selectedIndex st = -1 \<Longrightarrow>
      getNextNonvisibleChildIndex ar st = -1 \<and> getPreviousNonvisibleChildIndex ar st = -1"
    by (simp add: getNextNonvisibleChildIndex_def getPreviousNonvisibleChildIndex_def)
  show ?thesis
    using assms r n p m
    by (auto simp: newSelectionIndex_def Let_def length_of_def split: if_splits)
qed

text \<open>
  On a control with children, the keyboard handler dispatches events only when the
  selection changes; the property setters never dispatch; a pointer press on the control
  itself or one that resolves to a child dispatches events only when the selection
  changes.
\<close>

lemma keyHandler_silent_when_unchanged:
  assumes "distinct (children st)" and "children st \<noteq> []"
    and "selectedChildren (keyHandler ar st k) = selectedChildren st"
  shows "keyHandler ar st k = st \<or>
         keyHandler ar st k = st\<lparr>effects := effects st @ [PreventDefault]\<rparr>"
proof (cases "newSelectionIndex ar st k")
  case None
  then show ?thesis by (simp add: keyHandler_def)
next
  case (Some t)
  show ?thesis
  proof (cases "t = selectedIndex st")
    case True
    with Some show ?thesis by (simp add: keyHandler_stays)
  next
    case False
    then have t: "0 \<le> t" "t < length_of st"
      using newSelectionIndex_range[OF Some assms(2)] by (simp_all add: length_of_def)
    note mv = keyHandler_moves[OF Some False assms(1) t]
    have "selectedIndex (keyHandler ar st k) = selectedIndex st"
    proof (rule selectedIndex_cong)
      show "children (keyHandler ar st k) = children st" by simp
      show "\<forall>c \<in> set (children st). isSelected (keyHandler ar st k) c = isSelected st c"
        using isSelected_of_selectedChildren[OF keyHandler_children assms(3)] by blast
    qed
    with mv(2) False show ?thesis by simp
  qed
qed

lemma setters_never_notify:
  "effects (set_selectedIndex st v) = effects st"
  "effects (set_selectedChild st element) = effects st"
  using set_selectedChild_cases[of st element] by auto

lemma handlePointerDown_silent_when_unchanged:
  assumes "handlePointerDown st ev = Inr st'"
    and "selectedChildren st' = selectedChildren st"
    and "target ev = host st \<or>
         (\<exists>t \<in> set (children st). resolveTarget st (target ev) = Some t)"
  shows "st' = st"
proof (cases "target ev = host st \<or> defaultPrevented ev")
  case True
  with assms(1) show ?thesis by (simp add: handlePointerDown_ignored)
next
  case False
  with assms(3) obtain t where t: "t \<in> set (children st)"
      "resolveTarget st (target ev) = Some t"
    by blast
  have "children st' = children st"
    using only_marker_changed_handlePointerDown[OF assms(1)]
    by (simp add: only_marker_changed_def)
  then have sel: "isSelected st' t = isSelected st t"
    using assms(2) t(1) by (rule isSelected_of_selectedChildren)
  show ?thesis
  proof (cases "allowMultipeSelections st \<and> shiftKey ev")
    case True
    with False t(2) assms(1) sel show ?thesis
      by (auto simp: handlePointerDown_additive[where t = t] split: if_splits)
  next
    case e: False
    with False t(2) assms(1) sel show ?thesis
      by (auto simp: handlePointerDown_exclusive[where t = t] split: if_splits)
  qed
qed

end
